theory Spec2Isabelle
  imports Main
begin

section \<open>Python strings and character classes\<close>

text \<open>
  A Python \<open>str\<close> is a sequence of Unicode code points; it is modelled as a list of
  natural numbers, one per code point (\<open>ord\<close> of each character). The literals of
  \<open>app.py\<close> are written by their code points: \<open>Class\<close> is 67 108 97 115 115, the
  row glyph U+5217 is 21015, the ideographic comma U+3001 is 12289, the full-width full
  stop U+FF0E is 65294, the middle dot U+30FB is 12539 and the ideographic space
  U+3000 is 12288.
\<close>

type_synonym pystr = "nat list"

definition in_ranges :: "nat \<Rightarrow> (nat \<times> nat) list \<Rightarrow> bool" where
  "in_ranges c rs = list_ex (\<lambda>(a, b). a \<le> c \<and> c \<le> b) rs"

text \<open>
  The code points for which \<open>str.isspace\<close> holds; the pattern class \<open>\s\<close> of a
  \<open>str\<close> pattern and \<open>str.strip()\<close> use the same set.
\<close>

definition space_ranges :: "(nat \<times> nat) list" where
  "space_ranges =
     [(9, 13), (28, 32), (133, 133), (160, 160), (5760, 5760), (8192, 8202),
      (8232, 8233), (8239, 8239), (8287, 8287), (12288, 12288)]"

definition isspace :: "nat \<Rightarrow> bool" where
  "isspace c = in_ranges c space_ranges"

text \<open>
  The decimal digits (general category Nd, Unicode 14): the pattern class \<open>\d\<close> and
  the characters \<open>int\<close> converts. Every range is a run of the digits 0 to 9, the last but
  four holds five such runs.
\<close>

definition decimal_ranges :: "(nat \<times> nat) list" where
  "decimal_ranges =
     [(48, 57), (1632, 1641), (1776, 1785), (1984, 1993), (2406, 2415), (2534, 2543),
      (2662, 2671), (2790, 2799), (2918, 2927), (3046, 3055), (3174, 3183), (3302, 3311),
      (3430, 3439), (3558, 3567), (3664, 3673), (3792, 3801), (3872, 3881), (4160, 4169),
      (4240, 4249), (6112, 6121), (6160, 6169), (6470, 6479), (6608, 6617), (6784, 6793),
      (6800, 6809), (6992, 7001), (7088, 7097), (7232, 7241), (7248, 7257),
      (42528, 42537), (43216, 43225), (43264, 43273), (43472, 43481), (43504, 43513),
      (43600, 43609), (44016, 44025), (65296, 65305), (66720, 66729), (68912, 68921),
      (69734, 69743), (69872, 69881), (69942, 69951), (70096, 70105), (70384, 70393),
      (70736, 70745), (70864, 70873), (71248, 71257), (71360, 71369), (71472, 71481),
      (71904, 71913), (72016, 72025), (72784, 72793), (73040, 73049), (73120, 73129),
      (92768, 92777), (92864, 92873), (93008, 93017), (120782, 120831),
      (123200, 123209), (123632, 123641), (125264, 125273), (130032, 130041)]"

definition isdecimal_char :: "nat \<Rightarrow> bool" where
  "isdecimal_char c = in_ranges c decimal_ranges"

text \<open>
  The further characters for which \<open>str.isdigit\<close> holds although they are no decimal
  digits (superscripts, circled digits and the like): \<open>int\<close> rejects them.
\<close>

definition other_digit_ranges :: "(nat \<times> nat) list" where
  "other_digit_ranges =
     [(178, 179), (185, 185), (4969, 4977), (6618, 6618), (8304, 8304), (8308, 8313),
      (8320, 8329), (9312, 9320), (9332, 9340), (9352, 9360), (9450, 9450),
      (9461, 9469), (9471, 9471), (10102, 10110), (10112, 10120), (10122, 10130),
      (68160, 68163), (69216, 69224), (69714, 69722), (127232, 127242)]"

definition isdigit_char :: "nat \<Rightarrow> bool" where
  "isdigit_char c = (isdecimal_char c \<or> in_ranges c other_digit_ranges)"

definition decimal_value :: "nat \<Rightarrow> nat" where
  "decimal_value c =
     (case find (\<lambda>(a, b). a \<le> c \<and> c \<le> b) decimal_ranges of
        Some (a, b) \<Rightarrow> (c - a) mod 10
      | None \<Rightarrow> 0)"

text \<open>\<open>s.strip()\<close>, \<open>s.isdigit()\<close> and \<open>s.replace(old, new)\<close> for a one-character \<open>old\<close>.\<close>

definition strip :: "pystr \<Rightarrow> pystr" where
  "strip s = rev (dropWhile isspace (rev (dropWhile isspace s)))"

definition isdigit :: "pystr \<Rightarrow> bool" where
  "isdigit s = (s \<noteq> [] \<and> list_all isdigit_char s)"

definition replace_char :: "nat \<Rightarrow> nat \<Rightarrow> pystr \<Rightarrow> pystr" where
  "replace_char old new s = map (\<lambda>c. if c = old then new else c) s"

section \<open>Exceptions and integer conversion\<close>

datatype exn = ValueError | TypeError | OverflowError | KeyError

text \<open>
  \<open>int(s)\<close> for a \<open>str\<close> that holds no sign, underscore or white space, which is all
  that \<open>parse_seat_text\<close> passes to it (group 2 is matched by \<open>\d+\<close>, a seat token has
  passed \<open>isdigit\<close>): a ValueError unless every character is a decimal digit. The
  first argument is the interpreter's limit on the number of digits
  (\<open>sys.get_int_max_str_digits()\<close>, 4300 by default, 0 for none, absent before
  CPython 3.11); it never applies to 640 digits or fewer.
\<close>

definition digits_value :: "pystr \<Rightarrow> int" where
  "digits_value s = foldl (\<lambda>acc c. 10 * acc + int (decimal_value c)) 0 s"

definition py_int :: "nat \<Rightarrow> pystr \<Rightarrow> exn + int" where
  "py_int max_str_digits s =
     (if s = [] \<or> \<not> list_all isdecimal_char s then Inl ValueError
      else if 640 < length s \<and> 0 < max_str_digits \<and> max_str_digits < length s
      then Inl ValueError
      else Inr (digits_value s))"

section \<open>Regular expressions\<close>

text \<open>
  The fragment of Python's \<open>re\<close> syntax that the patterns of \<open>app.py\<close> use: literals,
  greedy \<open>+\<close> and \<open>*\<close> over a one-character class, a greedy optional group
  \<open>(?:r)?\<close>, concatenation and capturing groups. A class is a list of atoms, as inside
  brackets.
\<close>

datatype atom = Cat_s | Cat_S | Cat_d | Ch nat

fun atom_ok :: "atom \<Rightarrow> nat \<Rightarrow> bool" where
  "atom_ok Cat_s c = isspace c"
| "atom_ok Cat_S c = (\<not> isspace c)"
| "atom_ok Cat_d c = isdecimal_char c"
| "atom_ok (Ch k) c = (c = k)"

definition in_class :: "atom list \<Rightarrow> nat \<Rightarrow> bool" where
  "in_class as c = list_ex (\<lambda>a. atom_ok a c) as"

datatype regex =
    Eps
  | Lit pystr
  | Plus "atom list"
  | Star "atom list"
  | Opt regex
  | Seq regex regex
  | Group regex

fun seqs :: "regex list \<Rightarrow> regex" where
  "seqs [] = Eps"
| "seqs (r # rs) = Seq r (seqs rs)"

text \<open>
  The backtracking matcher. A state is the text still to be read and the groups closed
  so far; \<open>ms r st\<close> lists every way \<open>r\<close> matches at \<open>st\<close> in the order the engine
  tries them (a greedy repeat tries the longest run first and gives characters back one
  by one; a greedy optional group tries its body before skipping it). \<open>re.match\<close>
  returns the first one.
\<close>

type_synonym mstate = "pystr \<times> pystr list"

definition rep_max :: "atom list \<Rightarrow> pystr \<Rightarrow> nat" where
  "rep_max as s = length (takeWhile (in_class as) s)"

fun ms :: "regex \<Rightarrow> mstate \<Rightarrow> mstate list" where
  "ms Eps st = [st]"
| "ms (Lit l) (s, gs) = (if take (length l) s = l then [(drop (length l) s, gs)] else [])"
| "ms (Plus as) (s, gs) = map (\<lambda>k. (drop k s, gs)) (rev [1..<Suc (rep_max as s)])"
| "ms (Star as) (s, gs) = map (\<lambda>k. (drop k s, gs)) (rev [0..<Suc (rep_max as s)])"
| "ms (Opt r) st = ms r st @ [st]"
| "ms (Seq r1 r2) st = concat (map (ms r2) (ms r1 st))"
| "ms (Group r) (s, gs) =
     map (\<lambda>(s', gs'). (s', gs' @ [take (length s - length s') s])) (ms r (s, gs))"

definition re_match :: "regex \<Rightarrow> pystr \<Rightarrow> pystr list option" where
  "re_match r s = (case ms r (s, []) of [] \<Rightarrow> None | (s', gs) # _ \<Rightarrow> Some gs)"

text \<open>\<open>m.group(i)\<close> for a match whose groups are \<open>m\<close>, the first at index 1.\<close>

definition group :: "pystr list \<Rightarrow> nat \<Rightarrow> pystr" where
  "group m i = m ! (i - 1)"

text \<open>
  The number of groups of a pattern, and the patterns in which no group stands inside
  an optional part: a match of such a pattern closes every group, so \<open>m.group(i)\<close> is a
  text for every \<open>i\<close> from 1 to that number.
\<close>

fun ngroups :: "regex \<Rightarrow> nat" where
  "ngroups (Seq r1 r2) = ngroups r1 + ngroups r2"
| "ngroups (Group r) = Suc (ngroups r)"
| "ngroups (Opt r) = ngroups r"
| "ngroups r = 0"

fun all_groups_close :: "regex \<Rightarrow> bool" where
  "all_groups_close (Seq r1 r2) = (all_groups_close r1 \<and> all_groups_close r2)"
| "all_groups_close (Group r) = all_groups_close r"
| "all_groups_close (Opt r) = (ngroups r = 0 \<and> all_groups_close r)"
| "all_groups_close r = True"

section \<open>The parser\<close>

definition Class_lit :: pystr where
  "Class_lit = [67, 108, 97, 115, 115]"

definition seat_class :: "atom list" where
  "seat_class = [Cat_d, Cat_s, Ch 12289, Ch 44, Ch 65294, Ch 46, Ch 12539]"

text \<open>The tail both patterns share: \<open>\s+(\d+)\<close>, the row glyph, \<open>\s*([\d\s...]+)\<close>.\<close>

definition row_and_seats :: "regex list" where
  "row_and_seats =
     [Plus [Cat_s], Group (Plus [Cat_d]), Lit [21015], Star [Cat_s], Group (Plus seat_class)]"

definition pattern1 :: regex where
  "pattern1 =
     seqs (Group (seqs [Lit Class_lit, Plus [Cat_s], Plus [Cat_S],
                        Opt (seqs [Plus [Cat_s], Plus [Cat_S]])])
           # row_and_seats)"

definition pattern2 :: regex where
  "pattern2 =
     seqs (Group (seqs [Lit Class_lit, Plus [Cat_s], Plus [Cat_S], Plus [Cat_s], Plus [Cat_S]])
           # row_and_seats)"

text \<open>
  \<open>re.split(r'(?=Class\s)', text)\<close>, as Python 3.7 and later split at empty matches:
  the text is cut before every position at which \<open>Class\<close> and a white-space character
  follow, position 0 included (the first piece is then empty). The second argument holds
  the piece being read, reversed.
\<close>

definition at_class :: "pystr \<Rightarrow> bool" where
  "at_class s = (take 5 s = Class_lit \<and> (case drop 5 s of [] \<Rightarrow> False | c # _ \<Rightarrow> isspace c))"

fun split_from :: "pystr \<Rightarrow> pystr \<Rightarrow> pystr list" where
  "split_from cur [] = [rev cur]"
| "split_from cur (c # cs) =
     (if at_class (c # cs) then rev cur # split_from [c] cs else split_from (c # cur) cs)"

definition split_blocks :: "pystr \<Rightarrow> pystr list" where
  "split_blocks text = split_from [] text"

text \<open>
  \<open>re.split(r'[...]+', s)\<close> for a class that never matches the empty string: the
  pieces between the maximal runs of separators, empty ones included.
\<close>

definition seat_sep :: "atom list" where
  "seat_sep = [Ch 12289, Ch 44, Ch 65294, Ch 46, Cat_s, Ch 12539]"

fun split_runs :: "atom list \<Rightarrow> bool \<Rightarrow> pystr \<Rightarrow> pystr \<Rightarrow> pystr list" where
  "split_runs as in_run cur [] = [rev cur]"
| "split_runs as in_run cur (c # cs) =
     (if in_class as c
      then (if in_run then split_runs as True cur cs else rev cur # split_runs as True [] cs)
      else split_runs as False (c # cur) cs)"

definition re_split :: "atom list \<Rightarrow> pystr \<Rightarrow> pystr list" where
  "re_split as s = split_runs as False [] s"

type_synonym request = "pystr \<times> int \<times> int"

text \<open>The loop over \<open>seat_parts\<close>, appending to \<open>results\<close>.\<close>

fun seats_loop :: "nat \<Rightarrow> pystr \<Rightarrow> int \<Rightarrow> pystr list \<Rightarrow> request list \<Rightarrow> exn + request list" where
  "seats_loop lim class_name row_num [] results = Inr results"
| "seats_loop lim class_name row_num (sp # sps) results =
     (let sp' = strip sp in
      if isdigit sp'
      then (case py_int lim sp' of
              Inl e \<Rightarrow> Inl e
            | Inr n \<Rightarrow> seats_loop lim class_name row_num sps (results @ [(class_name, row_num, n)]))
      else seats_loop lim class_name row_num sps results)"

text \<open>
  The two attempts of the loop body: the second pattern is tried when the first fails.
\<close>

definition match_block :: "pystr \<Rightarrow> pystr list option" where
  "match_block block =
     (case re_match pattern1 block of
        Some m \<Rightarrow> Some m
      | None \<Rightarrow> re_match pattern2 block)"

text \<open>
  One turn of the loop over \<open>blocks\<close>, the loop, and the function. The way a block is
  matched is their first argument, so that the parser as written (\<open>match_block\<close>) can be
  compared with parsers that match a block otherwise.
\<close>

definition parse_block_with ::
  "(pystr \<Rightarrow> pystr list option) \<Rightarrow> nat \<Rightarrow> pystr \<Rightarrow> request list \<Rightarrow> exn + request list" where
  "parse_block_with matcher lim block0 results =
     (let block = strip block0 in
      if block = [] then Inr results
      else (case matcher block of
              None \<Rightarrow> Inr results
            | Some m \<Rightarrow>
                (let class_name = strip (group m 1) in
                 case py_int lim (group m 2) of
                   Inl e \<Rightarrow> Inl e
                 | Inr row_num \<Rightarrow>
                     (let seat_str = group m 3;
                          seat_parts = re_split seat_sep (strip seat_str)
                      in seats_loop lim class_name row_num seat_parts results))))"

fun blocks_loop_with ::
  "(pystr \<Rightarrow> pystr list option) \<Rightarrow> nat \<Rightarrow> pystr list \<Rightarrow> request list \<Rightarrow> exn + request list" where
  "blocks_loop_with matcher lim [] results = Inr results"
| "blocks_loop_with matcher lim (block # blocks) results =
     (case parse_block_with matcher lim block results of
        Inl e \<Rightarrow> Inl e
      | Inr results' \<Rightarrow> blocks_loop_with matcher lim blocks results')"

text \<open>
  The order of \<open>list(set(results))\<close> depends on the hashes of the tuples and is not fixed
  by the language; the model returns the distinct results in one fixed order (each at
  the place of its last occurrence), and what is proved of the returned list does not
  depend on its order.
\<close>

definition parse_text_with ::
  "(pystr \<Rightarrow> pystr list option) \<Rightarrow> nat \<Rightarrow> pystr \<Rightarrow> exn + request list" where
  "parse_text_with matcher lim text0 =
     (let text = replace_char 12288 32 (replace_char 12288 32 text0);
          blocks = split_blocks text
      in case blocks_loop_with matcher lim blocks [] of
           Inl e \<Rightarrow> Inl e
         | Inr results \<Rightarrow> Inr (remdups results))"

definition parse_seat_text :: "nat \<Rightarrow> pystr \<Rightarrow> exn + request list" where
  "parse_seat_text lim text0 = parse_text_with match_block lim text0"

text \<open>The parser with the second \<open>re.match\<close> (the fallback branch) removed.\<close>

definition parse_without_fallback :: "nat \<Rightarrow> pystr \<Rightarrow> exn + request list" where
  "parse_without_fallback lim text0 = parse_text_with (re_match pattern1) lim text0"

text \<open>
  The two readings the specification names. The three-token class-name form is
  \<open>pattern2\<close>; the two-token form is the same pattern with a class name of \<open>Class\<close> and
  one further token. \<open>two_token_first\<close> is the policy in the specification's words: the
  two-token form first, the three-token form when it fails.
\<close>

definition two_token_form :: regex where
  "two_token_form =
     seqs (Group (seqs [Lit Class_lit, Plus [Cat_s], Plus [Cat_S]]) # row_and_seats)"

definition two_token_first :: "pystr \<Rightarrow> pystr list option" where
  "two_token_first block =
     (case re_match two_token_form block of
        Some m \<Rightarrow> Some m
      | None \<Rightarrow> re_match pattern2 block)"

definition three_token_first :: "pystr \<Rightarrow> pystr list option" where
  "three_token_first block =
     (case re_match pattern2 block of
        Some m \<Rightarrow> Some m
      | None \<Rightarrow> re_match two_token_form block)"

section \<open>The normalizer\<close>

text \<open>
  \<open>re.sub(r'\s+', ' ', s)\<close>: every maximal run of white space becomes one space. The
  flag tells whether the character before was white space.
\<close>

fun sub_spaces :: "bool \<Rightarrow> pystr \<Rightarrow> pystr" where
  "sub_spaces in_run [] = []"
| "sub_spaces in_run (c # cs) =
     (if isspace c
      then (if in_run then sub_spaces True cs else 32 # sub_spaces True cs)
      else c # sub_spaces False cs)"

definition normalize_class :: "pystr \<Rightarrow> pystr" where
  "normalize_class s = sub_spaces False (strip s)"

text \<open>
  For the statement of what \<open>normalize_class\<close> computes: \<open>s.split()\<close>, the words of a
  text (its maximal runs of characters that are no white space), and \<open>' '.join(ws)\<close>.
  The first argument of \<open>words_from\<close> holds the word being read, reversed.
\<close>

fun words_from :: "pystr \<Rightarrow> pystr \<Rightarrow> pystr list" where
  "words_from cur [] = (if cur = [] then [] else [rev cur])"
| "words_from cur (c # cs) =
     (if isspace c
      then (if cur = [] then words_from [] cs else rev cur # words_from [] cs)
      else words_from (c # cur) cs)"

definition py_split :: "pystr \<Rightarrow> pystr list" where
  "py_split s = words_from [] s"

fun join_space :: "pystr list \<Rightarrow> pystr" where
  "join_space [] = []"
| "join_space [w] = w"
| "join_space (w # ws) = w @ 32 # join_space ws"

section \<open>Sheets and the coordinate index\<close>

text \<open>
  A cell value is \<open>None\<close> or a Python object, which the code observes in two ways only:
  \<open>str(v)\<close> and \<open>int(v)\<close>. The model records both observations: the text, and the
  integer or the exception (\<open>int\<close> of a text that is no number raises ValueError, of a
  date TypeError, of an infinite float OverflowError).
\<close>

datatype conv = Converted int | Raises exn

datatype cell_value = NoneV | Val pystr conv

record pattern_fill =
  fill_type :: string
  fgColor :: string

definition BLUE_FILL :: pattern_fill where
  "BLUE_FILL = \<lparr>fill_type = ''solid'', fgColor = ''0000FF''\<rparr>"

type_synonym coord = "nat \<times> nat"

record sheet =
  cell_value :: "coord \<Rightarrow> cell_value"
  cell_fill :: "coord \<Rightarrow> pattern_fill"
  max_row :: nat
  max_column :: nat

text \<open>
  A sheet is read at a position through its values and fills; a cell that \<open>ws.cell\<close>
  creates on the way has the value \<open>None\<close> and the fill it had. A workbook is its sheets
  by name, in order.
\<close>

type_synonym workbook = "(pystr \<times> sheet) list"

definition sheetnames :: "workbook \<Rightarrow> pystr list" where
  "sheetnames wb = map fst wb"

definition seat_sheet_name :: pystr where
  "seat_sheet_name =
     [50, 53, 65293, 50, 54, 12502, 12525, 12483, 12463, 12510, 12483, 12503, 95,
      24231, 24109, 30058, 21495]"

definition row_sheet_name :: pystr where
  "row_sheet_name =
     [50, 53, 65293, 50, 54, 12502, 12525, 12483, 12463, 12510, 12483, 12503, 95, 21015]"

definition class_sheet_name :: pystr where
  "class_sheet_name =
     [50, 53, 65293, 50, 54, 12502, 12525, 12483, 12463, 12510, 12483, 12503, 95,
      12463, 12521, 12473]"

definition required_sheets :: "pystr list" where
  "required_sheets = [seat_sheet_name, row_sheet_name, class_sheet_name]"

type_synonym coord_map = "pystr \<times> int \<times> int \<rightharpoonup> coord"

text \<open>
  The body of the inner loop at row \<open>r\<close> and column \<open>c\<close>: \<open>Inr\<close> the index after the turn
  (unchanged when the turn ends in \<open>continue\<close>), \<open>Inl\<close> an exception that no
  \<open>except\<close> clause catches.
\<close>

definition index_cell ::
  "sheet \<Rightarrow> sheet \<Rightarrow> sheet \<Rightarrow> nat \<Rightarrow> nat \<Rightarrow> coord_map \<Rightarrow> exn + coord_map" where
  "index_cell ws_class ws_row ws_seat r c coord_map =
     (case (cell_value ws_class (r, c), cell_value ws_row (r, c), cell_value ws_seat (r, c)) of
        (Val cv_str _, Val _ rv, Val _ sv) \<Rightarrow>
          (let cv_norm = normalize_class cv_str in
           case rv of
             Raises e \<Rightarrow> if e = ValueError \<or> e = TypeError then Inr coord_map else Inl e
           | Converted rv_int \<Rightarrow>
               (case sv of
                  Raises e \<Rightarrow> if e = ValueError \<or> e = TypeError then Inr coord_map else Inl e
                | Converted sv_int \<Rightarrow> Inr (coord_map((cv_norm, rv_int, sv_int) \<mapsto> (r, c)))))
      | _ \<Rightarrow> Inr coord_map)"

fun cols_loop ::
  "sheet \<Rightarrow> sheet \<Rightarrow> sheet \<Rightarrow> nat \<Rightarrow> nat list \<Rightarrow> coord_map \<Rightarrow> exn + coord_map" where
  "cols_loop ws_class ws_row ws_seat r [] coord_map = Inr coord_map"
| "cols_loop ws_class ws_row ws_seat r (c # cs) coord_map =
     (case index_cell ws_class ws_row ws_seat r c coord_map of
        Inl e \<Rightarrow> Inl e
      | Inr coord_map' \<Rightarrow> cols_loop ws_class ws_row ws_seat r cs coord_map')"

fun rows_loop ::
  "sheet \<Rightarrow> sheet \<Rightarrow> sheet \<Rightarrow> nat list \<Rightarrow> nat list \<Rightarrow> coord_map \<Rightarrow> exn + coord_map" where
  "rows_loop ws_class ws_row ws_seat [] cs coord_map = Inr coord_map"
| "rows_loop ws_class ws_row ws_seat (r # rs) cs coord_map =
     (case cols_loop ws_class ws_row ws_seat r cs coord_map of
        Inl e \<Rightarrow> Inl e
      | Inr coord_map' \<Rightarrow> rows_loop ws_class ws_row ws_seat rs cs coord_map')"

definition build_index :: "sheet \<Rightarrow> sheet \<Rightarrow> sheet \<Rightarrow> exn + coord_map" where
  "build_index ws_class ws_row ws_seat =
     rows_loop ws_class ws_row ws_seat
       [1..<max_row ws_class + 1] [1..<max_column ws_class + 1] Map.empty"

text \<open>
  For the statements about the scan: the positions in row-major order, the loop over a
  list of positions, the key a position contributes (when all three cells hold a value
  and both numbers convert), whether a position is passed over by \<open>continue\<close>, and the
  exception it raises past the \<open>except\<close> clauses, if any.
\<close>

definition scan_order :: "nat \<Rightarrow> nat \<Rightarrow> coord list" where
  "scan_order mr mc = concat (map (\<lambda>r. map (\<lambda>c. (r, c)) [1..<mc + 1]) [1..<mr + 1])"

fun scan_loop :: "sheet \<Rightarrow> sheet \<Rightarrow> sheet \<Rightarrow> coord list \<Rightarrow> coord_map \<Rightarrow> exn + coord_map" where
  "scan_loop ws_class ws_row ws_seat [] coord_map = Inr coord_map"
| "scan_loop ws_class ws_row ws_seat ((r, c) # ps) coord_map =
     (case index_cell ws_class ws_row ws_seat r c coord_map of
        Inl e \<Rightarrow> Inl e
      | Inr coord_map' \<Rightarrow> scan_loop ws_class ws_row ws_seat ps coord_map')"

definition caught :: "exn \<Rightarrow> bool" where
  "caught e = (e = ValueError \<or> e = TypeError)"

definition cell_key :: "sheet \<Rightarrow> sheet \<Rightarrow> sheet \<Rightarrow> coord \<Rightarrow> (pystr \<times> int \<times> int) option" where
  "cell_key ws_class ws_row ws_seat p =
     (case (cell_value ws_class p, cell_value ws_row p, cell_value ws_seat p) of
        (Val cv_str _, Val _ (Converted rv_int), Val _ (Converted sv_int)) \<Rightarrow>
          Some (normalize_class cv_str, rv_int, sv_int)
      | _ \<Rightarrow> None)"

definition skipped :: "sheet \<Rightarrow> sheet \<Rightarrow> sheet \<Rightarrow> coord \<Rightarrow> bool" where
  "skipped ws_class ws_row ws_seat p =
     (cell_value ws_class p = NoneV \<or> cell_value ws_row p = NoneV \<or>
      cell_value ws_seat p = NoneV \<or>
      (case cell_value ws_row p of
         Val _ (Raises e) \<Rightarrow> caught e
       | Val _ (Converted _) \<Rightarrow>
           (case cell_value ws_seat p of Val _ (Raises e) \<Rightarrow> caught e | _ \<Rightarrow> False)
       | NoneV \<Rightarrow> False))"

definition uncaught :: "sheet \<Rightarrow> sheet \<Rightarrow> sheet \<Rightarrow> coord \<Rightarrow> exn option" where
  "uncaught ws_class ws_row ws_seat p =
     (case (cell_value ws_class p, cell_value ws_row p, cell_value ws_seat p) of
        (Val _ _, Val _ (Raises e), Val _ _) \<Rightarrow> if caught e then None else Some e
      | (Val _ _, Val _ (Converted _), Val _ (Raises e)) \<Rightarrow> if caught e then None else Some e
      | _ \<Rightarrow> None)"

definition keyed :: "sheet \<Rightarrow> sheet \<Rightarrow> sheet \<Rightarrow> coord list \<Rightarrow> ((pystr \<times> int \<times> int) \<times> coord) list" where
  "keyed ws_class ws_row ws_seat ps =
     List.map_filter (\<lambda>p. map_option (\<lambda>k. (k, p)) (cell_key ws_class ws_row ws_seat p)) ps"

section \<open>Reconciliation\<close>

text \<open>\<open>str(n)\<close> of a natural number, for the cell label \<open>R..C..\<close> of a matched row.\<close>

fun str_nat :: "nat \<Rightarrow> pystr" where
  "str_nat n = (if n < 10 then [48 + n] else str_nat (n div 10) @ [48 + n mod 10])"

record unmatched_row =
  u_class :: pystr
  u_row :: int
  u_seat :: int

record matched_row =
  m_class :: pystr
  m_row :: int
  m_seat :: int
  m_cell :: pystr

text \<open>What the loop changes: the fills of the seat sheet and the two report lists.\<close>

record recon_state =
  seat_fill :: "coord \<Rightarrow> pattern_fill"
  matched :: "matched_row list"
  unmatched :: "unmatched_row list"

definition reconcile_step :: "coord_map \<Rightarrow> recon_state \<Rightarrow> request \<Rightarrow> recon_state" where
  "reconcile_step coord_map st req =
     (case req of (class_name, row_num, seat_num) \<Rightarrow>
        (let key = (normalize_class class_name, row_num, seat_num) in
         case coord_map key of
           Some (r, c) \<Rightarrow>
             st\<lparr>seat_fill := (seat_fill st)((r, c) := BLUE_FILL),
                matched := matched st @
                  [\<lparr>m_class = class_name, m_row = row_num, m_seat = seat_num,
                    m_cell = [82] @ str_nat r @ [67] @ str_nat c\<rparr>]\<rparr>
         | None \<Rightarrow>
             st\<lparr>unmatched := unmatched st @
                  [\<lparr>u_class = class_name, u_row = row_num, u_seat = seat_num\<rparr>]\<rparr>))"

fun reconcile_loop :: "coord_map \<Rightarrow> request list \<Rightarrow> recon_state \<Rightarrow> recon_state" where
  "reconcile_loop coord_map [] st = st"
| "reconcile_loop coord_map (req # seats) st =
     reconcile_loop coord_map seats (reconcile_step coord_map st req)"

definition reconcile :: "coord_map \<Rightarrow> request list \<Rightarrow> (coord \<Rightarrow> pattern_fill) \<Rightarrow> recon_state" where
  "reconcile coord_map seats fills =
     reconcile_loop coord_map seats \<lparr>seat_fill = fills, matched = [], unmatched = []\<rparr>"

text \<open>
  The key under which a request is looked up, whether the index holds it, and the request
  a report row was made from.
\<close>

definition request_key :: "request \<Rightarrow> pystr \<times> int \<times> int" where
  "request_key req = (case req of (class_name, row_num, seat_num) \<Rightarrow>
     (normalize_class class_name, row_num, seat_num))"

definition in_index :: "coord_map \<Rightarrow> request \<Rightarrow> bool" where
  "in_index coord_map req = (coord_map (request_key req) \<noteq> None)"

definition matched_request :: "matched_row \<Rightarrow> request" where
  "matched_request m = (m_class m, m_row m, m_seat m)"

definition unmatched_request :: "unmatched_row \<Rightarrow> request" where
  "unmatched_request u = (u_class u, u_row u, u_seat u)"

section \<open>A run\<close>

text \<open>
  What a press of the button does, from the text and the uploaded workbook to what the
  page shows. The workbook argument is what \<open>openpyxl.load_workbook\<close> makes of the
  upload. \<open>st.error\<close> followed by \<open>st.stop()\<close> ends the run. The result records the
  messages in order, the workbook as it is in memory after the run (\<open>None\<close> when the
  upload was never read), the index when one was built, the report lists and the sheet
  offered for download: the seat sheet with its new fills, which the code copies cell by
  cell into a fresh workbook.
\<close>

datatype ui_msg =
    ErrorUnparsed
  | WriteCount nat
  | ErrorMissingSheets "pystr list"
  | SuccessCounts nat nat

datatype status = Stopped | Raised exn | Completed

record run_result =
  status :: status
  messages :: "ui_msg list"
  workbook_after :: "workbook option"
  index_built :: "coord_map option"
  matched_rows :: "matched_row list"
  unmatched_rows :: "unmatched_row list"
  download :: "sheet option"

definition no_result :: run_result where
  "no_result =
     \<lparr>status = Stopped, messages = [], workbook_after = None, index_built = None,
      matched_rows = [], unmatched_rows = [], download = None\<rparr>"

definition missing_sheets :: "workbook \<Rightarrow> pystr list" where
  "missing_sheets wb = filter (\<lambda>s. s \<notin> set (sheetnames wb)) required_sheets"

definition set_sheet :: "pystr \<Rightarrow> sheet \<Rightarrow> workbook \<Rightarrow> workbook" where
  "set_sheet name ws wb = map (\<lambda>(n, s). if n = name then (n, ws) else (n, s)) wb"

definition run :: "nat \<Rightarrow> pystr \<Rightarrow> workbook \<Rightarrow> run_result" where
  "run lim seat_text wb =
     (case parse_seat_text lim seat_text of
        Inl e \<Rightarrow> no_result\<lparr>status := Raised e\<rparr>
      | Inr seats \<Rightarrow>
          if seats = [] then no_result\<lparr>status := Stopped, messages := [ErrorUnparsed]\<rparr>
          else
            (let msgs = [WriteCount (length seats)];
                 missing = missing_sheets wb
             in if missing \<noteq> []
                then no_result\<lparr>status := Stopped,
                       messages := msgs @ [ErrorMissingSheets missing],
                       workbook_after := Some wb\<rparr>
                else
                  (case (map_of wb seat_sheet_name, map_of wb row_sheet_name,
                         map_of wb class_sheet_name) of
                     (Some ws_seat, Some ws_row, Some ws_class) \<Rightarrow>
                       (case build_index ws_class ws_row ws_seat of
                          Inl e \<Rightarrow>
                            no_result\<lparr>status := Raised e, messages := msgs,
                              workbook_after := Some wb\<rparr>
                        | Inr coord_map \<Rightarrow>
                            (let st = reconcile coord_map seats (cell_fill ws_seat);
                                 ws_seat' = ws_seat\<lparr>cell_fill := seat_fill st\<rparr>
                             in \<lparr>status = Completed,
                                 messages = msgs @
                                   [SuccessCounts (length (matched st)) (length (unmatched st))],
                                 workbook_after = Some (set_sheet seat_sheet_name ws_seat' wb),
                                 index_built = Some coord_map,
                                 matched_rows = matched st,
                                 unmatched_rows = unmatched st,
                                 download = Some ws_seat'\<rparr>))
                   | _ \<Rightarrow>
                       no_result\<lparr>status := Raised KeyError, messages := msgs,
                         workbook_after := Some wb\<rparr>)))"

section \<open>The inputs of the examples\<close>

text \<open>
  The texts of the specification's examples, by code points: \<open>Class SS End-1\<close> followed
  by row 2 and the seats 8 and 9 with an ideographic comma between them (example 2),
  and \<open>Class S South\<close>, row 1, seat 33 on two lines (example 4).
\<close>

definition Class_SS_End1 :: pystr where
  "Class_SS_End1 = [67, 108, 97, 115, 115, 32, 83, 83, 32, 69, 110, 100, 45, 49]"

definition example2 :: pystr where
  "example2 = Class_SS_End1 @ [32, 50, 21015, 56, 12289, 57]"

definition Class_S_South :: pystr where
  "Class_S_South = [67, 108, 97, 115, 115, 32, 83, 32, 83, 111, 117, 116, 104]"

definition example4 :: pystr where
  "example4 = Class_S_South @ [32, 49, 21015, 51, 51, 10] @ Class_S_South @ [32, 49, 21015, 51, 51]"

text \<open>\<open>Class  S   South\<close>, with two and three spaces.\<close>

definition Class_S_South_wide :: pystr where
  "Class_S_South_wide = [67, 108, 97, 115, 115, 32, 32, 83, 32, 32, 32, 83, 111, 117, 116, 104]"

text \<open>
  A block that both readings of the class name fit: \<open>Class A\<close>, then 1, the row glyph,
  2, a space, 3, the row glyph, 4.
\<close>

definition Class_A :: pystr where
  "Class_A = [67, 108, 97, 115, 115, 32, 65]"

definition both_block :: pystr where
  "both_block = Class_A @ [32, 49, 21015, 50, 32, 51, 21015, 52]"

text \<open>
  Sheets of one cell, at row 1 and column 1, every other cell empty and every fill the
  library's default.
\<close>

definition default_fill :: pattern_fill where
  "default_fill = \<lparr>fill_type = [], fgColor = ''00000000''\<rparr>"

definition one_cell_sheet :: "cell_value \<Rightarrow> sheet" where
  "one_cell_sheet v =
     \<lparr>cell_value = (\<lambda>p. if p = (1, 1) then v else NoneV),
      cell_fill = (\<lambda>p. default_fill), max_row = 1, max_column = 1\<rparr>"

text \<open>A cell that holds the float infinity: \<open>str\<close> gives \<open>inf\<close>, \<open>int\<close> raises OverflowError.\<close>

definition inf_cell :: cell_value where
  "inf_cell = Val [105, 110, 102] (Raises OverflowError)"

definition int_cell :: "pystr \<Rightarrow> int \<Rightarrow> cell_value" where
  "int_cell s n = Val s (Converted n)"

text \<open>
  An index of one key, no fill changed yet, and the state the reconciliation loop starts
  from.
\<close>

definition small_index :: coord_map where
  "small_index = [(Class_A, 1, 2) \<mapsto> (3, 4)]"

definition no_fills :: "coord \<Rightarrow> pattern_fill" where
  "no_fills = (\<lambda>p. default_fill)"

definition start_state :: recon_state where
  "start_state = \<lparr>seat_fill = no_fills, matched = [], unmatched = []\<rparr>"

text \<open>
  A cell that holds a text which is no number, and sheets of one row and three columns.
\<close>

definition text_cell :: "pystr \<Rightarrow> cell_value" where
  "text_cell s = Val s (Raises ValueError)"

definition three_cell_sheet :: "cell_value \<Rightarrow> cell_value \<Rightarrow> cell_value \<Rightarrow> sheet" where
  "three_cell_sheet v1 v2 v3 =
     \<lparr>cell_value = (\<lambda>p. if p = (1, 1) then v1 else if p = (1, 2) then v2
                         else if p = (1, 3) then v3 else NoneV),
      cell_fill = no_fills, max_row = 1, max_column = 3\<rparr>"

definition class_row :: sheet where
  "class_row = three_cell_sheet (text_cell Class_A) (text_cell Class_A) (text_cell Class_A)"

definition row_row :: sheet where
  "row_row = three_cell_sheet (int_cell [49] 1) (text_cell [97, 98, 99]) (int_cell [49] 1)"

definition seat_row :: sheet where
  "seat_row = three_cell_sheet (int_cell [50] 2) (int_cell [50] 2) (int_cell [50] 2)"

text \<open>
  A workbook that holds the seat sheet and the row sheet but no class sheet, and row
  sheets whose first cell fails to convert: one holds the float infinity, one a text.
\<close>

definition two_sheet_workbook :: workbook where
  "two_sheet_workbook = [(seat_sheet_name, seat_row), (row_sheet_name, row_row)]"

definition row_row_inf :: sheet where
  "row_row_inf = three_cell_sheet inf_cell (int_cell [49] 1) (int_cell [49] 1)"

definition row_row_text :: sheet where
  "row_row_text = three_cell_sheet (text_cell [97, 98, 99]) (int_cell [49] 1) (int_cell [49] 1)"

section \<open>Evaluation\<close>

lemma isspace_iff:
  "isspace c =
     (9 \<le> c \<and> c \<le> 13 \<or> 28 \<le> c \<and> c \<le> 32 \<or> c = 133 \<or> c = 160 \<or> c = 5760 \<or>
      8192 \<le> c \<and> c \<le> 8202 \<or> 8232 \<le> c \<and> c \<le> 8233 \<or> c = 8239 \<or> c = 8287 \<or>
      c = 12288)"
  by (auto simp: isspace_def in_ranges_def space_ranges_def)

lemmas regex_eval = re_match_def pattern1_def pattern2_def two_token_form_def row_and_seats_def
  Class_lit_def rep_max_def in_class_def seat_class_def isdecimal_char_def in_ranges_def
  decimal_ranges_def isspace_iff

lemmas int_eval = py_int_def isdigit_def isdigit_char_def isdecimal_char_def in_ranges_def
  decimal_ranges_def digits_value_def decimal_value_def

lemma parse_block_empty: "parse_block_with matcher lim [] results = Inr results"
  by (simp add: parse_block_with_def strip_def)

section \<open>The groups of a match\<close>

lemma ms_groups:
  "all_groups_close r \<Longrightarrow> (s', gs') \<in> set (ms r (s, gs)) \<Longrightarrow>
   length gs' = length gs + ngroups r"
proof (induction r arbitrary: s gs s' gs')
  case (Seq r1 r2)
  from Seq.prems(2) obtain t ts where a: "(t, ts) \<in> set (ms r1 (s, gs))"
    and b: "(s', gs') \<in> set (ms r2 (t, ts))"
    by auto
  from Seq.IH(1) [OF _ a] Seq.IH(2) [OF _ b] Seq.prems(1) show ?case
    by simp
next
  case (Group r)
  from Group.prems(2) obtain ts where a: "(s', ts) \<in> set (ms r (s, gs))"
    and b: "gs' = ts @ [take (length s - length s') s]"
    by auto
  from Group.IH [OF _ a] Group.prems(1) b show ?case
    by simp
next
  case (Opt r)
  then show ?case by auto
qed (auto split: if_splits)

lemma re_match_groups:
  "all_groups_close r \<Longrightarrow> re_match r s = Some m \<Longrightarrow> length m = ngroups r"
proof -
  assume c: "all_groups_close r" and m: "re_match r s = Some m"
  from m obtain s' rest where "ms r (s, []) = (s', m) # rest"
    by (auto simp: re_match_def split: list.splits)
  then have "(s', m) \<in> set (ms r (s, []))"
    by simp
  from ms_groups [OF c this] show ?thesis
    by simp
qed

lemma match_block_groups: "match_block block = Some m \<Longrightarrow> length m = 3"
proof -
  have c: "all_groups_close pattern1" "all_groups_close pattern2"
    "ngroups pattern1 = 3" "ngroups pattern2 = 3"
    by (simp_all add: pattern1_def pattern2_def row_and_seats_def)
  assume "match_block block = Some m"
  then have "re_match pattern1 block = Some m \<or> re_match pattern2 block = Some m"
    by (auto simp: match_block_def split: option.splits)
  with re_match_groups c show ?thesis
    by metis
qed

section \<open>The parser on the examples\<close>

lemma match_example2: "match_block example2 = Some [Class_SS_End1, [50], [56, 12289, 57]]"
  by (simp add: match_block_def regex_eval example2_def Class_SS_End1_def)

lemma split_seats_example2: "re_split seat_sep (strip [56, 12289, 57]) = [[56], [57]]"
  by (simp add: re_split_def seat_sep_def in_class_def strip_def isspace_iff)

lemma parse_example2:
  "parse_seat_text lim example2 = Inr [(Class_SS_End1, 2, 8), (Class_SS_End1, 2, 9)]"
proof -
  have b: "split_blocks example2 = [[], example2]"
    by (simp add: split_blocks_def at_class_def Class_lit_def example2_def Class_SS_End1_def
        isspace_iff)
  have r: "replace_char 12288 32 example2 = example2"
    by (simp add: replace_char_def example2_def Class_SS_End1_def)
  have s: "strip example2 = example2" "example2 \<noteq> []" "strip Class_SS_End1 = Class_SS_End1"
    "strip [56] = [56]" "strip [57] = [57]"
    by (simp_all add: strip_def example2_def Class_SS_End1_def isspace_iff)
  have i: "py_int lim [50] = Inr 2" "py_int lim [56] = Inr 8" "py_int lim [57] = Inr 9"
    "isdigit [56]" "isdigit [57]"
    by (simp_all add: int_eval)
  have p: "parse_block_with match_block lim example2 [] =
      Inr [(Class_SS_End1, 2, 8), (Class_SS_End1, 2, 9)]"
    by (simp add: parse_block_with_def s match_example2 group_def i split_seats_example2)
  have ne: "(Class_SS_End1, 2::int, 8::int) \<noteq> (Class_SS_End1, 2, 9)"
    by simp
  show ?thesis
    using ne by (simp add: parse_seat_text_def parse_text_with_def r b p parse_block_empty)
qed

text \<open>
  Claim C1. On the text of example 2 the first pattern matches with the three-token class
  name \<open>Class SS End-1\<close> as group 1, the digits before the row glyph as group 2 and the
  seat list as group 3; the seat list splits at the ideographic comma into the tokens 8
  and 9; and \<open>parse_seat_text\<close> returns exactly the two requests
  \<open>(Class SS End-1, 2, 8)\<close> and \<open>(Class SS End-1, 2, 9)\<close>, whatever the interpreter's
  digit limit.
\<close>

theorem example2_two_requests:
  "match_block example2 = Some [Class_SS_End1, [50], [56, 12289, 57]] \<and>
   re_split seat_sep (strip [56, 12289, 57]) = [[56], [57]] \<and>
   (\<exists>rs. parse_seat_text lim example2 = Inr rs \<and> length rs = 2 \<and>
      set rs = {(Class_SS_End1, 2, 8), (Class_SS_End1, 2, 9)})"
  by (simp add: match_example2 split_seats_example2 parse_example2)

lemma parse_distinct: "parse_seat_text lim text0 = Inr rs \<Longrightarrow> distinct rs"
  by (auto simp: parse_seat_text_def parse_text_with_def Let_def split: sum.splits)

lemma match_S_South:
  "match_block (Class_S_South @ [32, 49, 21015, 51, 51]) = Some [Class_S_South, [49], [51, 51]]"
  by (simp add: match_block_def regex_eval Class_S_South_def)

lemma parse_example4: "parse_seat_text lim example4 = Inr [(Class_S_South, 1, 33)]"
proof -
  let ?b = "Class_S_South @ [32, 49, 21015, 51, 51]"
  let ?c = "Class_S_South @ [32, 49, 21015, 51, 51, 10]"
  have b: "split_blocks example4 = [[], ?c, ?b]"
    by (simp add: split_blocks_def at_class_def Class_lit_def example4_def Class_S_South_def
        isspace_iff)
  have r: "replace_char 12288 32 example4 = example4"
    by (simp add: replace_char_def example4_def Class_S_South_def)
  have s: "strip ?c = ?b" "strip ?b = ?b" "?b \<noteq> []" "strip Class_S_South = Class_S_South"
    "strip [51, 51] = [51, 51]"
    by (simp_all add: strip_def Class_S_South_def isspace_iff)
  have i: "py_int lim [49] = Inr 1" "py_int lim [51, 51] = Inr 33" "isdigit [51, 51]"
    by (simp_all add: int_eval)
  have sp: "re_split seat_sep [51, 51] = [[51, 51]]"
    by (simp add: re_split_def seat_sep_def in_class_def isspace_iff)
  have p: "parse_block_with match_block lim ?b results = Inr (results @ [(Class_S_South, 1, 33)])"
    "parse_block_with match_block lim ?c results = Inr (results @ [(Class_S_South, 1, 33)])"
    for results
    by (simp_all only: parse_block_with_def s Let_def match_S_South group_def i sp)
       (simp_all add: s i sp)
  show ?thesis
    by (simp add: parse_seat_text_def parse_text_with_def r b p parse_block_empty)
qed

text \<open>
  Claim C6. Whatever the text, the list \<open>parse_seat_text\<close> returns holds no request
  twice; the text of example 4, the same entry on two lines, gives exactly one request.
\<close>

theorem parse_no_duplicates:
  "(parse_seat_text lim text0 = Inr rs \<longrightarrow> distinct rs) \<and>
   parse_seat_text lim example4 = Inr [(Class_S_South, 1, 33)]"
  using parse_distinct parse_example4 by blast

theorem parse_no_duplicates_witness:
  "parse_seat_text 4300 example4 = Inr [(Class_S_South, 1, 33)] \<and>
   distinct [(Class_S_South, 1 :: int, 33 :: int)]"
  using parse_no_duplicates [of 4300 example4 "[(Class_S_South, 1, 33)]"] by simp

lemma parse_empty: "parse_seat_text lim [] = Inr []"
  by (simp add: parse_seat_text_def parse_text_with_def replace_char_def split_blocks_def
      parse_block_empty)

section \<open>The run on a text without requests\<close>

text \<open>
  Claim C9. \<open>parse_seat_text\<close> returns the empty list on the empty text, without an
  exception; and whenever it returns no request, the run shows the error and stops: the
  upload is never read (no workbook in memory), no index is built, nothing is reported
  and nothing is offered for download.
\<close>

theorem empty_parse_stops:
  "parse_seat_text lim [] = Inr [] \<and>
   (parse_seat_text lim seat_text = Inr [] \<longrightarrow>
      run lim seat_text wb =
        \<lparr>status = Stopped, messages = [ErrorUnparsed], workbook_after = None,
         index_built = None, matched_rows = [], unmatched_rows = [], download = None\<rparr>)"
  by (simp add: parse_empty run_def no_result_def)

theorem empty_parse_stops_witness:
  "parse_seat_text 4300 [] = Inr [] \<and>
   run 4300 [] [] =
     \<lparr>status = Stopped, messages = [ErrorUnparsed], workbook_after = None,
      index_built = None, matched_rows = [], unmatched_rows = [], download = None\<rparr>"
  using empty_parse_stops [of 4300 "[]" "[]"] by simp

section \<open>Properties of the reconciliation\<close>

lemma reconcile_step_hit:
  "coord_map (request_key req) = Some (r, c) \<Longrightarrow>
   reconcile_step coord_map st req =
     st\<lparr>seat_fill := (seat_fill st)((r, c) := BLUE_FILL),
        matched := matched st @
          [\<lparr>m_class = fst req, m_row = fst (snd req), m_seat = snd (snd req),
            m_cell = [82] @ str_nat r @ [67] @ str_nat c\<rparr>]\<rparr>"
  by (cases req) (simp add: reconcile_step_def request_key_def)

lemma reconcile_step_miss:
  "coord_map (request_key req) = None \<Longrightarrow>
   reconcile_step coord_map st req =
     st\<lparr>unmatched := unmatched st @
          [\<lparr>u_class = fst req, u_row = fst (snd req), u_seat = snd (snd req)\<rparr>]\<rparr>"
  by (cases req) (simp add: reconcile_step_def request_key_def)

lemma reconcile_step_matched:
  "map matched_request (matched (reconcile_step coord_map st req)) =
   map matched_request (matched st) @ (if in_index coord_map req then [req] else [])"
proof (cases "coord_map (request_key req)")
  case None
  then show ?thesis
    by (simp add: reconcile_step_miss in_index_def)
next
  case (Some p)
  then show ?thesis
    by (cases p) (simp add: reconcile_step_hit in_index_def matched_request_def)
qed

lemma reconcile_step_unmatched:
  "map unmatched_request (unmatched (reconcile_step coord_map st req)) =
   map unmatched_request (unmatched st) @ (if in_index coord_map req then [] else [req])"
proof (cases "coord_map (request_key req)")
  case None
  then show ?thesis
    by (simp add: reconcile_step_miss in_index_def unmatched_request_def)
next
  case (Some p)
  then show ?thesis
    by (cases p) (simp add: reconcile_step_hit in_index_def)
qed

lemma reconcile_loop_matched:
  "map matched_request (matched (reconcile_loop coord_map seats st)) =
   map matched_request (matched st) @ filter (in_index coord_map) seats"
  by (induction seats arbitrary: st) (simp_all add: reconcile_step_matched)

lemma reconcile_loop_unmatched:
  "map unmatched_request (unmatched (reconcile_loop coord_map seats st)) =
   map unmatched_request (unmatched st) @ filter (\<lambda>req. \<not> in_index coord_map req) seats"
  by (induction seats arbitrary: st) (simp_all add: reconcile_step_unmatched)

lemma reconcile_loop_fill:
  "seat_fill (reconcile_loop coord_map seats st) p =
     (if \<exists>req \<in> set seats. coord_map (request_key req) = Some p then BLUE_FILL
      else seat_fill st p)"
proof (induction seats arbitrary: st)
  case Nil
  show ?case by simp
next
  case (Cons req seats)
  show ?case
  proof (cases "coord_map (request_key req)")
    case None
    then show ?thesis
      by (simp add: Cons.IH reconcile_step_miss)
  next
    case (Some q)
    then show ?thesis
      by (cases q) (auto simp add: Cons.IH reconcile_step_hit)
  qed
qed

lemma length_filter_both: "length (filter P xs) + length (filter (\<lambda>x. \<not> P x) xs) = length xs"
  by (induction xs) auto

text \<open>
  Claim C3. For every index, every list of requests and every sheet, the loop puts each
  request in one report list and in one only: the matched rows are, in order, the
  requests whose key the index holds, the unmatched rows are the others, the two lengths
  add up to the number of requests, and when the requests are distinct the two lists
  together hold each of them exactly once.
\<close>

theorem reconcile_partitions:
  "map matched_request (matched (reconcile coord_map seats fills)) =
     filter (in_index coord_map) seats \<and>
   map unmatched_request (unmatched (reconcile coord_map seats fills)) =
     filter (\<lambda>req. \<not> in_index coord_map req) seats \<and>
   length (matched (reconcile coord_map seats fills)) +
     length (unmatched (reconcile coord_map seats fills)) = length seats \<and>
   (distinct seats \<longrightarrow>
      distinct (map matched_request (matched (reconcile coord_map seats fills)) @
                map unmatched_request (unmatched (reconcile coord_map seats fills))) \<and>
      set (map matched_request (matched (reconcile coord_map seats fills)) @
           map unmatched_request (unmatched (reconcile coord_map seats fills))) = set seats)"
proof -
  let ?st = "reconcile coord_map seats fills"
  have m: "map matched_request (matched ?st) = filter (in_index coord_map) seats"
    by (simp add: reconcile_def reconcile_loop_matched)
  have u: "map unmatched_request (unmatched ?st) = filter (\<lambda>req. \<not> in_index coord_map req) seats"
    by (simp add: reconcile_def reconcile_loop_unmatched)
  have "length (map matched_request (matched ?st)) + length (map unmatched_request (unmatched ?st))
      = length seats"
    unfolding m u by (rule length_filter_both)
  then have l: "length (matched ?st) + length (unmatched ?st) = length seats"
    by simp
  have d: "distinct seats \<longrightarrow>
      distinct (map matched_request (matched ?st) @ map unmatched_request (unmatched ?st)) \<and>
      set (map matched_request (matched ?st) @ map unmatched_request (unmatched ?st)) = set seats"
    unfolding m u by auto
  from m u l d show ?thesis by blast
qed

lemma norm_Class_A: "normalize_class Class_A = Class_A"
  by (simp add: normalize_class_def strip_def Class_A_def isspace_iff)

theorem reconcile_partitions_witness:
  "distinct [(Class_A, 1 :: int, 2 :: int), (Class_A, 1, 3)] \<and>
   map matched_request (matched (reconcile small_index [(Class_A, 1, 2), (Class_A, 1, 3)] no_fills)) =
     [(Class_A, 1, 2)] \<and>
   map unmatched_request (unmatched (reconcile small_index [(Class_A, 1, 2), (Class_A, 1, 3)] no_fills)) =
     [(Class_A, 1, 3)] \<and>
   length (matched (reconcile small_index [(Class_A, 1, 2), (Class_A, 1, 3)] no_fills)) +
     length (unmatched (reconcile small_index [(Class_A, 1, 2), (Class_A, 1, 3)] no_fills)) = 2"
  using reconcile_partitions [of small_index "[(Class_A, 1, 2), (Class_A, 1, 3)]" no_fills]
  by (simp add: in_index_def request_key_def norm_Class_A small_index_def)

text \<open>
  Claim C8. A request whose normalized key the index does not hold changes nothing but
  the unmatched list, to which it is appended: the fills and the matched list stay as they
  were. After the whole loop such a request is among the unmatched rows and not among the
  matched ones, and a cell that is the coordinate of no request keeps its original fill.
\<close>

theorem miss_has_no_effect:
  "(coord_map (normalize_class class_name, row_num, seat_num) = None \<longrightarrow>
      reconcile_step coord_map st (class_name, row_num, seat_num) =
        st\<lparr>unmatched := unmatched st @
             [\<lparr>u_class = class_name, u_row = row_num, u_seat = seat_num\<rparr>]\<rparr>) \<and>
   (coord_map (normalize_class class_name, row_num, seat_num) = None \<and>
    (class_name, row_num, seat_num) \<in> set seats \<longrightarrow>
      (class_name, row_num, seat_num) \<in>
        set (map unmatched_request (unmatched (reconcile coord_map seats fills))) \<and>
      (class_name, row_num, seat_num) \<notin>
        set (map matched_request (matched (reconcile coord_map seats fills)))) \<and>
   ((\<forall>req \<in> set seats. coord_map (request_key req) \<noteq> Some p) \<longrightarrow>
      seat_fill (reconcile coord_map seats fills) p = fills p)"
proof -
  have 1: "coord_map (normalize_class class_name, row_num, seat_num) = None \<longrightarrow>
      reconcile_step coord_map st (class_name, row_num, seat_num) =
        st\<lparr>unmatched := unmatched st @
             [\<lparr>u_class = class_name, u_row = row_num, u_seat = seat_num\<rparr>]\<rparr>"
    by (simp add: reconcile_step_def)
  have 2: "coord_map (normalize_class class_name, row_num, seat_num) = None \<and>
    (class_name, row_num, seat_num) \<in> set seats \<longrightarrow>
      (class_name, row_num, seat_num) \<in>
        set (map unmatched_request (unmatched (reconcile coord_map seats fills))) \<and>
      (class_name, row_num, seat_num) \<notin>
        set (map matched_request (matched (reconcile coord_map seats fills)))"
    unfolding reconcile_def reconcile_loop_matched reconcile_loop_unmatched
    by (simp add: in_index_def request_key_def)
  have 3: "(\<forall>req \<in> set seats. coord_map (request_key req) \<noteq> Some p) \<longrightarrow>
      seat_fill (reconcile coord_map seats fills) p = fills p"
    by (simp add: reconcile_def reconcile_loop_fill)
  from 1 2 3 show ?thesis by blast
qed


theorem miss_has_no_effect_witness:
  "small_index (normalize_class Class_A, 1, 3) = None \<and>
   reconcile_step small_index start_state (Class_A, 1, 3) =
     start_state\<lparr>unmatched := [\<lparr>u_class = Class_A, u_row = 1, u_seat = 3\<rparr>]\<rparr> \<and>
   (Class_A, 1, 3) \<in>
     set (map unmatched_request
       (unmatched (reconcile small_index [(Class_A, 1, 2), (Class_A, 1, 3)] no_fills))) \<and>
   seat_fill (reconcile small_index [(Class_A, 1, 2), (Class_A, 1, 3)] no_fills) (1, 1) =
     default_fill"
  using miss_has_no_effect [of small_index Class_A 1 3 start_state
      "[(Class_A, 1, 2), (Class_A, 1, 3)]" no_fills "(1, 1)"]
  by (simp add: request_key_def norm_Class_A small_index_def start_state_def no_fills_def)

section \<open>The run on a workbook that lacks a sheet\<close>

lemma parse_abc: "parse_seat_text lim [97, 98, 99] = Inr []"
proof -
  have b: "split_blocks [97, 98, 99] = [[97, 98, 99]]"
    by (simp add: split_blocks_def at_class_def Class_lit_def)
  have m: "match_block [97, 98, 99] = None"
    by (simp add: match_block_def regex_eval)
  have p: "parse_block_with match_block lim [97, 98, 99] [] = Inr []"
    by (simp add: parse_block_with_def strip_def isspace_iff m)
  show ?thesis
    by (simp add: parse_seat_text_def parse_text_with_def replace_char_def b p)
qed

lemma missing_sheets_iff:
  "(missing_sheets wb \<noteq> []) = (\<exists>s \<in> set required_sheets. s \<notin> set (sheetnames wb))"
  by (simp add: missing_sheets_def filter_empty_conv)

lemma two_sheet_workbook_missing: "missing_sheets two_sheet_workbook = [class_sheet_name]"
  by (simp add: missing_sheets_def sheetnames_def required_sheets_def two_sheet_workbook_def
      seat_sheet_name_def row_sheet_name_def class_sheet_name_def)

text \<open>
  Claim C4, as stated, fails twice on a workbook that lacks the class sheet. The sheets
  are looked for only after the text has been parsed: on the text \<open>abc\<close>, which holds
  no request, the run stops on the unparsed text and reports no missing sheet. And on a
  text with requests the structural error is not the first thing shown: the number of
  parsed requests is written to the page before the workbook is inspected.
\<close>

theorem missing_sheet_not_reported:
  "missing_sheets two_sheet_workbook = [class_sheet_name] \<and>
   run 4300 [97, 98, 99] two_sheet_workbook =
     \<lparr>status = Stopped, messages = [ErrorUnparsed], workbook_after = None,
      index_built = None, matched_rows = [], unmatched_rows = [], download = None\<rparr> \<and>
   messages (run 4300 example2 two_sheet_workbook) =
     [WriteCount 2, ErrorMissingSheets [class_sheet_name]]"
  by (simp add: run_def parse_abc parse_example2 no_result_def two_sheet_workbook_missing)

text \<open>
  Claim C4, amended. When the text gives at least one request and one of the three
  required sheets is absent from the workbook, the run writes the number of requests,
  then shows the error that lists the missing sheets, and stops: the workbook is as it
  was loaded (no cell changed), no index is built, no matched or unmatched row is
  reported and nothing is offered for download. The sheets listed are exactly the
  required ones that the workbook lacks.
\<close>

theorem missing_sheet_stops:
  "(parse_seat_text lim seat_text = Inr seats \<and> seats \<noteq> [] \<and>
    (\<exists>s \<in> set required_sheets. s \<notin> set (sheetnames wb)) \<longrightarrow>
      run lim seat_text wb =
        \<lparr>status = Stopped,
         messages = [WriteCount (length seats), ErrorMissingSheets (missing_sheets wb)],
         workbook_after = Some wb, index_built = None, matched_rows = [],
         unmatched_rows = [], download = None\<rparr>) \<and>
   set (missing_sheets wb) = {s \<in> set required_sheets. s \<notin> set (sheetnames wb)}"
proof -
  have "set (missing_sheets wb) = {s \<in> set required_sheets. s \<notin> set (sheetnames wb)}"
    by (simp add: missing_sheets_def)
  moreover have "run lim seat_text wb =
        \<lparr>status = Stopped,
         messages = [WriteCount (length seats), ErrorMissingSheets (missing_sheets wb)],
         workbook_after = Some wb, index_built = None, matched_rows = [],
         unmatched_rows = [], download = None\<rparr>"
    if "parse_seat_text lim seat_text = Inr seats" "seats \<noteq> []" "missing_sheets wb \<noteq> []"
    using that by (simp add: run_def no_result_def Let_def)
  ultimately show ?thesis
    using missing_sheets_iff by blast
qed

theorem missing_sheet_stops_witness:
  "parse_seat_text 4300 example2 = Inr [(Class_SS_End1, 2, 8), (Class_SS_End1, 2, 9)] \<and>
   missing_sheets two_sheet_workbook = [class_sheet_name] \<and>
   run 4300 example2 two_sheet_workbook =
     \<lparr>status = Stopped,
      messages = [WriteCount 2, ErrorMissingSheets [class_sheet_name]],
      workbook_after = Some two_sheet_workbook, index_built = None, matched_rows = [],
      unmatched_rows = [], download = None\<rparr>"
proof -
  let ?seats = "[(Class_SS_End1, 2 :: int, 8 :: int), (Class_SS_End1, 2, 9)]"
  have p: "parse_seat_text 4300 example2 = Inr ?seats"
    by (rule parse_example2)
  have "missing_sheets two_sheet_workbook \<noteq> []"
    by (simp add: two_sheet_workbook_missing)
  then have a: "\<exists>s \<in> set required_sheets. s \<notin> set (sheetnames two_sheet_workbook)"
    by (simp only: missing_sheets_iff)
  from missing_sheet_stops [of 4300 example2 ?seats two_sheet_workbook] p a
  have "run 4300 example2 two_sheet_workbook =
        \<lparr>status = Stopped,
         messages = [WriteCount (length ?seats),
           ErrorMissingSheets (missing_sheets two_sheet_workbook)],
         workbook_after = Some two_sheet_workbook, index_built = None, matched_rows = [],
         unmatched_rows = [], download = None\<rparr>"
    by blast
  then show ?thesis
    using p by (simp add: two_sheet_workbook_missing)
qed

section \<open>The scan that builds the index\<close>

lemma scan_loop_append:
  "scan_loop wc wr ws (ps @ qs) m =
     (case scan_loop wc wr ws ps m of Inl e \<Rightarrow> Inl e | Inr m' \<Rightarrow> scan_loop wc wr ws qs m')"
  by (induction ps arbitrary: m) (auto split: sum.splits)

lemma cols_loop_scan:
  "cols_loop wc wr ws r cs m = scan_loop wc wr ws (map (\<lambda>c. (r, c)) cs) m"
  by (induction cs arbitrary: m) (auto split: sum.splits)

lemma rows_loop_scan:
  "rows_loop wc wr ws rs cs m =
     scan_loop wc wr ws (concat (map (\<lambda>r. map (\<lambda>c. (r, c)) cs) rs)) m"
  by (induction rs arbitrary: m) (auto simp: scan_loop_append cols_loop_scan split: sum.splits)

lemma build_index_scan:
  "build_index wc wr ws = scan_loop wc wr ws (scan_order (max_row wc) (max_column wc)) Map.empty"
  by (simp add: build_index_def scan_order_def rows_loop_scan)

lemma index_cell_skipped:
  "skipped wc wr ws (r, c) \<Longrightarrow> index_cell wc wr ws r c m = Inr m"
  by (auto simp: skipped_def index_cell_def caught_def split: cell_value.splits conv.splits)

lemma index_cell_key:
  "cell_key wc wr ws (r, c) = Some k \<Longrightarrow> index_cell wc wr ws r c m = Inr (m(k \<mapsto> (r, c)))"
  by (auto simp: cell_key_def index_cell_def split: cell_value.splits conv.splits)

lemma index_cell_uncaught:
  "uncaught wc wr ws (r, c) = Some e \<Longrightarrow> index_cell wc wr ws r c m = Inl e"
  by (auto simp: uncaught_def index_cell_def caught_def split: cell_value.splits conv.splits if_splits)

lemma position_cases:
  "(cell_key wc wr ws p \<noteq> None \<and> \<not> skipped wc wr ws p \<and> uncaught wc wr ws p = None) \<or>
   (cell_key wc wr ws p = None \<and> skipped wc wr ws p \<and> uncaught wc wr ws p = None) \<or>
   (cell_key wc wr ws p = None \<and> \<not> skipped wc wr ws p \<and> uncaught wc wr ws p \<noteq> None)"
  by (auto simp: cell_key_def skipped_def uncaught_def split: cell_value.splits conv.splits)

lemma keyed_Nil: "keyed wc wr ws [] = []"
  by (simp add: keyed_def List.map_filter_simps)

lemma keyed_Cons:
  "keyed wc wr ws (p # ps) =
     (case cell_key wc wr ws p of None \<Rightarrow> keyed wc wr ws ps
      | Some k \<Rightarrow> (k, p) # keyed wc wr ws ps)"
  by (simp add: keyed_def List.map_filter_simps split: option.splits)

lemma scan_loop_result:
  "\<forall>p \<in> set ps. uncaught wc wr ws p = None \<Longrightarrow>
   scan_loop wc wr ws ps m = Inr (m ++ map_of (rev (keyed wc wr ws ps)))"
proof (induction ps arbitrary: m)
  case Nil
  show ?case by (simp add: keyed_Nil)
next
  case (Cons p ps)
  obtain r c where p: "p = (r, c)" by (cases p)
  from Cons.prems have u: "uncaught wc wr ws (r, c) = None" and rest: "\<forall>q \<in> set ps. uncaught wc wr ws q = None"
    by (simp_all add: p)
  show ?case
  proof (cases "cell_key wc wr ws (r, c)")
    case None
    with u position_cases [of wc wr ws "(r, c)"] have "skipped wc wr ws (r, c)"
      by auto
    then have "index_cell wc wr ws r c m = Inr m"
      by (rule index_cell_skipped)
    with None show ?thesis
      by (simp add: p Cons.IH [OF rest] keyed_Cons)
  next
    case (Some k)
    then have ic: "index_cell wc wr ws r c m = Inr (m(k \<mapsto> (r, c)))"
      by (rule index_cell_key)
    have "scan_loop wc wr ws (p # ps) m = scan_loop wc wr ws ps (m(k \<mapsto> (r, c)))"
      unfolding p scan_loop.simps ic by simp
    also have "\<dots> = Inr (m(k \<mapsto> (r, c)) ++ map_of (rev (keyed wc wr ws ps)))"
      by (rule Cons.IH [OF rest])
    also have "m(k \<mapsto> (r, c)) ++ map_of (rev (keyed wc wr ws ps)) =
          m ++ map_of (rev (keyed wc wr ws (p # ps)))"
      using Some by (simp add: p keyed_Cons map_add_upd_left)
    finally show ?thesis .
  qed
qed

lemma scan_loop_raises:
  "\<forall>p \<in> set ps. uncaught wc wr ws p = None \<Longrightarrow> uncaught wc wr ws q = Some e \<Longrightarrow>
   scan_loop wc wr ws (ps @ q # qs) m = Inl e"
  by (cases q) (simp add: scan_loop_append scan_loop_result index_cell_uncaught)

lemma map_of_rev_last:
  "\<forall>x \<in> set ys. fst x \<noteq> k \<Longrightarrow> map_of (rev (xs @ (k, v) # ys)) k = Some v"
  by (induction ys rule: rev_induct) (auto simp: map_of_eq_None_iff[symmetric])

lemma keyed_append: "keyed wc wr ws (ps @ qs) = keyed wc wr ws ps @ keyed wc wr ws qs"
  by (induction ps) (auto simp: keyed_Nil keyed_Cons split: option.splits)

lemma keyed_fst:
  "x \<in> set (keyed wc wr ws ps) \<Longrightarrow> snd x \<in> set ps \<and> cell_key wc wr ws (snd x) = Some (fst x)"
  by (induction ps) (auto simp: keyed_Nil keyed_Cons split: option.splits)

lemma later_wins:
  assumes "ps = xs @ q # ys" "cell_key wc wr ws q = Some k"
    "\<forall>p \<in> set ys. cell_key wc wr ws p \<noteq> Some k"
  shows "map_of (rev (keyed wc wr ws ps)) k = Some q"
proof -
  have "keyed wc wr ws ps = keyed wc wr ws xs @ (k, q) # keyed wc wr ws ys"
    using assms(1,2) by (simp add: keyed_append keyed_Cons)
  moreover have "\<forall>x \<in> set (keyed wc wr ws ys). fst x \<noteq> k"
    using assms(3) keyed_fst by fastforce
  ultimately show ?thesis
    using map_of_rev_last [of "keyed wc wr ws ys" k "keyed wc wr ws xs" q] by simp
qed


lemma scan_loop_Inr_no_uncaught:
  "scan_loop wc wr ws ps m = Inr m' \<Longrightarrow> \<forall>p \<in> set ps. uncaught wc wr ws p = None"
proof (induction ps arbitrary: m)
  case Nil
  show ?case by simp
next
  case (Cons p ps)
  obtain r c where p: "p = (r, c)" by (cases p)
  show ?case
  proof (cases "uncaught wc wr ws (r, c)")
    case None
    with Cons show ?thesis
      by (auto simp: p split: sum.splits)
  next
    case (Some e)
    then have "index_cell wc wr ws r c m = Inl e"
      by (rule index_cell_uncaught)
    with Cons.prems show ?thesis
      by (simp add: p)
  qed
qed

lemma scan_order_comprehension:
  "scan_order mr mc = [(r, c). r \<leftarrow> [1..<mr + 1], c \<leftarrow> [1..<mc + 1]]"
  by (simp add: scan_order_def)

lemma upt_small: "[1..<2] = [1 :: nat]" "[1..<4] = [1, 2, 3 :: nat]"
  by (simp_all add: upt_rec)

text \<open>
  Claim C5. The code breaks it. Both conversions stand in a \<open>try\<close> whose handler
  passes the position over, but the handlers name ValueError and TypeError only. A row
  value that is the float infinity fails to convert with OverflowError: the position is
  not passed over, the exception leaves both loops, and the positions after it are never
  entered. With a text in the same cell, whose conversion raises ValueError, the scan
  passes the position over and goes on, and the last of the two cells with the same key
  ends in the index.
\<close>

theorem infinite_row_value_raises:
  "cell_value row_row_inf (1, 1) = Val [105, 110, 102] (Raises OverflowError) \<and>
   index_cell class_row row_row_inf seat_row 1 1 Map.empty = Inl OverflowError \<and>
   build_index class_row row_row_inf seat_row = Inl OverflowError \<and>
   cell_value row_row_text (1, 1) = Val [97, 98, 99] (Raises ValueError) \<and>
   index_cell class_row row_row_text seat_row 1 1 Map.empty = Inr Map.empty \<and>
   build_index class_row row_row_text seat_row = Inr [(Class_A, 1, 2) \<mapsto> (1, 3)]"
  by (simp add: build_index_def index_cell_def class_row_def row_row_inf_def row_row_text_def
      seat_row_def three_cell_sheet_def inf_cell_def text_cell_def int_cell_def upt_small
      norm_Class_A del: One_nat_def)

text \<open>
  What the scan does apart from that: \<open>build_index\<close> visits the positions of rows 1 to
  \<open>max_row\<close> and columns 1 to \<open>max_column\<close> of the class sheet in row-major order. A
  position is passed over, the index unchanged, when one of the three values is empty, or
  the row value's conversion raises ValueError or TypeError, or the row value converts
  and the seat value's conversion raises ValueError or TypeError. A position whose three
  values give a key is entered under that key whether or not the key is already there.
  When no conversion raises another exception the scan returns the index in which every
  key maps to the position scanned last among those that give it.
\<close>

theorem index_scan:
  "build_index wc wr ws =
     scan_loop wc wr ws (scan_order (max_row wc) (max_column wc)) Map.empty \<and>
   scan_order mr mc = [(r, c). r \<leftarrow> [1..<mr + 1], c \<leftarrow> [1..<mc + 1]] \<and>
   (skipped wc wr ws (r, c) \<longrightarrow> index_cell wc wr ws r c m = Inr m) \<and>
   (cell_key wc wr ws (r', c') = Some k \<longrightarrow>
      index_cell wc wr ws r' c' m = Inr (m(k \<mapsto> (r', c')))) \<and>
   ((\<forall>p \<in> set (scan_order (max_row wc) (max_column wc)). uncaught wc wr ws p = None) \<longrightarrow>
      build_index wc wr ws =
        Inr (map_of (rev (keyed wc wr ws (scan_order (max_row wc) (max_column wc)))))) \<and>
   (build_index wc wr ws = Inr m' \<and>
    scan_order (max_row wc) (max_column wc) = xs @ q # ys \<and>
    cell_key wc wr ws q = Some k' \<and> (\<forall>p \<in> set ys. cell_key wc wr ws p \<noteq> Some k') \<longrightarrow>
      m' k' = Some q)"
proof -
  let ?ps = "scan_order (max_row wc) (max_column wc)"
  have 1: "build_index wc wr ws = scan_loop wc wr ws ?ps Map.empty"
    by (rule build_index_scan)
  have 2: "scan_order mr mc = [(r, c). r \<leftarrow> [1..<mr + 1], c \<leftarrow> [1..<mc + 1]]"
    by (rule scan_order_comprehension)
  have 3: "skipped wc wr ws (r, c) \<longrightarrow> index_cell wc wr ws r c m = Inr m"
    by (simp add: index_cell_skipped)
  have 4: "cell_key wc wr ws (r', c') = Some k \<longrightarrow>
      index_cell wc wr ws r' c' m = Inr (m(k \<mapsto> (r', c')))"
    by (simp add: index_cell_key)
  have 5: "build_index wc wr ws = Inr (map_of (rev (keyed wc wr ws ?ps)))"
    if "\<forall>p \<in> set ?ps. uncaught wc wr ws p = None"
    using scan_loop_result [OF that, of Map.empty] by (simp add: 1)
  have 6: "m' k' = Some q"
    if a: "build_index wc wr ws = Inr m'" and b: "?ps = xs @ q # ys"
      and c: "cell_key wc wr ws q = Some k'" and d: "\<forall>p \<in> set ys. cell_key wc wr ws p \<noteq> Some k'"
  proof -
    from a have "scan_loop wc wr ws ?ps Map.empty = Inr m'"
      by (simp add: 1)
    then have "\<forall>p \<in> set ?ps. uncaught wc wr ws p = None"
      by (rule scan_loop_Inr_no_uncaught)
    from 5 [OF this] a have "m' = map_of (rev (keyed wc wr ws ?ps))"
      by simp
    with later_wins [OF b c d] show ?thesis
      by simp
  qed
  from 1 2 3 4 5 6 show ?thesis
    by blast
qed


lemma example_row_keys:
  "cell_key class_row row_row seat_row (1, 1) = Some (Class_A, 1, 2)"
  "cell_key class_row row_row seat_row (1, 2) = None"
  "cell_key class_row row_row seat_row (1, 3) = Some (Class_A, 1, 2)"
  "skipped class_row row_row seat_row (1, 2)"
  "uncaught class_row row_row seat_row (1, 1) = None"
  "uncaught class_row row_row seat_row (1, 2) = None"
  "uncaught class_row row_row seat_row (1, 3) = None"
  by (simp_all add: cell_key_def skipped_def uncaught_def caught_def class_row_def row_row_def
      seat_row_def three_cell_sheet_def text_cell_def int_cell_def norm_Class_A)

lemma example_row_order:
  "scan_order (max_row class_row) (max_column class_row) = [(1, 1), (1, 2), (1, 3)]"
proof -
  have "[1..<4] = [1, 2, 3 :: nat]" "[1..<2] = [1 :: nat]"
    by (simp_all add: upt_rec)
  then show ?thesis
    by (simp add: scan_order_def class_row_def three_cell_sheet_def)
qed

theorem index_scan_witness:
  "scan_order (max_row class_row) (max_column class_row) = [(1, 1), (1, 2), (1, 3)] \<and>
   skipped class_row row_row seat_row (1, 2) \<and>
   index_cell class_row row_row seat_row 1 2 Map.empty = Inr Map.empty \<and>
   cell_key class_row row_row seat_row (1, 1) = Some (Class_A, 1, 2) \<and>
   cell_key class_row row_row seat_row (1, 3) = Some (Class_A, 1, 2) \<and>
   index_cell class_row row_row seat_row 1 3 [(Class_A, 1, 2) \<mapsto> (1, 1)] =
     Inr [(Class_A, 1, 2) \<mapsto> (1, 3)] \<and>
   build_index class_row row_row seat_row = Inr [(Class_A, 1, 2) \<mapsto> (1, 3)]"
proof -
  let ?k = "(Class_A, 1 :: int, 2 :: int)"
  note th = index_scan [of class_row row_row seat_row 1 3 1 2 "Map.empty" 1 3 ?k
      "[?k \<mapsto> (1, 3)]" "[(1, 1), (1, 2)]" "(1, 3)" "[]" ?k]
  have u: "\<forall>p \<in> set (scan_order (max_row class_row) (max_column class_row)).
      uncaught class_row row_row seat_row p = None"
    by (simp add: example_row_order example_row_keys del: One_nat_def)
  have kd: "keyed class_row row_row seat_row [(1, 1), (1, 2), (1, 3)] = [(?k, (1, 1)), (?k, (1, 3))]"
    by (simp add: keyed_Cons keyed_Nil example_row_keys del: One_nat_def)
  from th u have b: "build_index class_row row_row seat_row =
      Inr (map_of (rev (keyed class_row row_row seat_row
        (scan_order (max_row class_row) (max_column class_row)))))"
    by blast
  have b': "build_index class_row row_row seat_row = Inr [?k \<mapsto> (1, 3)]"
    unfolding b example_row_order kd by (simp del: One_nat_def)
  from th example_row_keys(4) have s: "index_cell class_row row_row seat_row 1 2 Map.empty = Inr Map.empty"
    by blast
  from index_scan [of class_row row_row seat_row 1 3 1 2 "[?k \<mapsto> (1, 1)]" 1 3 ?k]
    example_row_keys(3)
  have c: "index_cell class_row row_row seat_row 1 3 [?k \<mapsto> (1, 1)] = Inr [?k \<mapsto> (1, 3)]"
    by (simp del: One_nat_def)
  show ?thesis
    using example_row_order example_row_keys(1,3,4) s c b' by (simp del: One_nat_def)
qed

section \<open>The normalizer, proved\<close>

lemma isspace_32: "isspace 32"
  by (simp add: isspace_iff)

lemma words_from_cur_nonempty: "cur \<noteq> [] \<Longrightarrow> words_from cur t \<noteq> []"
  by (induction t arbitrary: cur) auto

lemma words_from_nonempty:
  "\<exists>c \<in> set t. \<not> isspace c \<Longrightarrow> words_from cur t \<noteq> []"
  by (induction t arbitrary: cur) (auto simp: words_from_cur_nonempty)

lemma join_space_Cons: "ws \<noteq> [] \<Longrightarrow> join_space (w # ws) = w @ 32 # join_space ws"
  by (cases ws) simp_all

lemma sub_spaces_words:
  "(t = [] \<or> \<not> isspace (last t)) \<Longrightarrow>
   (cur \<noteq> [] \<or> t = [] \<or> \<not> isspace (hd t) \<longrightarrow>
      rev cur @ sub_spaces False t = join_space (words_from cur t)) \<and>
   (t \<noteq> [] \<longrightarrow> sub_spaces True t = join_space (words_from [] t))"
proof (induction t arbitrary: cur)
  case Nil
  show ?case by simp
next
  case (Cons c cs)
  have tail: "cs = [] \<or> \<not> isspace (last cs)"
    using Cons.prems by (auto split: if_splits)
  note IH = Cons.IH [OF tail]
  show ?case
  proof (cases "isspace c")
    case True
    then have ne: "cs \<noteq> []"
      using Cons.prems by auto
    then have "\<not> isspace (last cs)"
      using tail by simp
    then have "\<exists>x \<in> set cs. \<not> isspace x"
      using ne last_in_set by blast
    then have w: "words_from [] cs \<noteq> []"
      by (rule words_from_nonempty)
    from IH [of "[]"] ne have B: "sub_spaces True cs = join_space (words_from [] cs)"
      by simp
    show ?thesis
      using True B w by (simp add: join_space_Cons)
  next
    case False
    from IH [of "c # cur"] have A: "rev (c # cur) @ sub_spaces False cs = join_space (words_from (c # cur) cs)"
      by simp
    from IH [of "[c]"] have A1: "rev [c] @ sub_spaces False cs = join_space (words_from [c] cs)"
      by simp
    show ?thesis
      using False A A1 by simp
  qed
qed

lemma words_from_dropWhile: "words_from [] (dropWhile isspace s) = words_from [] s"
  by (induction s) auto

lemma words_from_snoc_space: "isspace c \<Longrightarrow> words_from cur (s @ [c]) = words_from cur s"
  by (induction s arbitrary: cur) auto

lemma words_from_drop_end:
  "words_from cur (rev (dropWhile isspace (rev s))) = words_from cur s"
  by (induction s rule: rev_induct) (auto simp: words_from_snoc_space)

lemma py_split_strip: "py_split (strip s) = py_split s"
  by (simp add: py_split_def strip_def words_from_drop_end words_from_dropWhile)

lemma strip_last: "strip s \<noteq> [] \<Longrightarrow> \<not> isspace (last (strip s))"
proof -
  assume a: "strip s \<noteq> []"
  let ?u = "dropWhile isspace (rev (dropWhile isspace s))"
  from a have ne: "?u \<noteq> []"
    by (simp add: strip_def)
  then have "\<not> isspace (hd ?u)"
    by (rule hd_dropWhile)
  moreover have "last (strip s) = hd ?u"
    using ne by (simp add: strip_def last_rev)
  ultimately show ?thesis by simp
qed

lemma strip_hd: "strip s \<noteq> [] \<Longrightarrow> \<not> isspace (hd (strip s))"
proof -
  assume a: "strip s \<noteq> []"
  let ?v = "dropWhile isspace s"
  have "rev (strip s @ rev (takeWhile isspace (rev ?v))) = rev ?v"
    by (simp add: strip_def)
  then have v: "strip s @ rev (takeWhile isspace (rev ?v)) = ?v"
    by (simp only: rev_is_rev_conv)
  with a have "?v \<noteq> []" by (metis append_is_Nil_conv)
  then have "\<not> isspace (hd ?v)"
    by (rule hd_dropWhile)
  moreover from v a have "hd ?v = hd (strip s)"
    by (metis hd_append2)
  ultimately show ?thesis by simp
qed

lemma normalize_class_words: "normalize_class s = join_space (py_split s)"
proof -
  let ?t = "strip s"
  have l: "?t = [] \<or> \<not> isspace (last ?t)"
    using strip_last by blast
  have "sub_spaces False ?t = join_space (words_from [] ?t)"
  proof (cases "?t = []")
    case True
    then show ?thesis by simp
  next
    case False
    then have "\<not> isspace (hd ?t)"
      by (rule strip_hd)
    with sub_spaces_words [OF l, of "[]"] show ?thesis
      by simp
  qed
  then show ?thesis
    using py_split_strip [of s] by (simp add: normalize_class_def py_split_def)
qed


lemma words_from_words:
  "\<forall>c \<in> set cur. \<not> isspace c \<Longrightarrow>
   (\<forall>w \<in> set (words_from cur t). w \<noteq> [] \<and> (\<forall>c \<in> set w. \<not> isspace c)) \<and>
   concat (words_from cur t) = rev cur @ filter (\<lambda>c. \<not> isspace c) t"
proof (induction t arbitrary: cur)
  case Nil
  then show ?case by simp
next
  case (Cons a t)
  show ?case
  proof (cases "isspace a")
    case True
    from Cons.IH [of "[]"] Cons.prems True show ?thesis
      by simp
  next
    case False
    with Cons.prems have "\<forall>c \<in> set (a # cur). \<not> isspace c"
      by simp
    from Cons.IH [OF this] False show ?thesis
      by simp
  qed
qed

lemma words_from_word:
  "\<forall>c \<in> set w. \<not> isspace c \<Longrightarrow> words_from cur (w @ t) = words_from (rev w @ cur) t"
  by (induction w arbitrary: cur) auto

lemma split_join:
  "\<forall>w \<in> set ws. w \<noteq> [] \<and> (\<forall>c \<in> set w. \<not> isspace c) \<Longrightarrow>
   words_from [] (join_space ws) = ws"
proof (induction ws rule: join_space.induct)
  case 1
  show ?case by simp
next
  case (2 w)
  then have "words_from [] (w @ []) = words_from (rev w @ []) []"
    by (intro words_from_word) simp
  with 2 show ?case by simp
next
  case (3 w v ws)
  then have "words_from [] (w @ 32 # join_space (v # ws)) =
      words_from (rev w @ []) (32 # join_space (v # ws))"
    by (intro words_from_word) simp
  with 3 show ?case
    by (simp add: isspace_32)
qed

lemma py_split_words:
  "(\<forall>w \<in> set (py_split s). w \<noteq> [] \<and> (\<forall>c \<in> set w. \<not> isspace c)) \<and>
   concat (py_split s) = filter (\<lambda>c. \<not> isspace c) s"
  using words_from_words [of "[]" s] by (simp add: py_split_def)

lemma normalize_class_idem: "normalize_class (normalize_class s) = normalize_class s"
proof -
  have "py_split (join_space (py_split s)) = py_split s"
    unfolding py_split_def [of "join_space (py_split s)"]
    using py_split_words [of s] by (intro split_join) blast
  then show ?thesis
    by (simp add: normalize_class_words)
qed

lemma split_wide: "py_split Class_S_South_wide = [[67, 108, 97, 115, 115], [83], [83, 111, 117, 116, 104]]"
  by (simp add: py_split_def Class_S_South_wide_def isspace_iff)

lemma split_narrow: "py_split Class_S_South = [[67, 108, 97, 115, 115], [83], [83, 111, 117, 116, 104]]"
  by (simp add: py_split_def Class_S_South_def isspace_iff)

lemma normalize_narrow: "normalize_class Class_S_South = Class_S_South"
  unfolding normalize_class_words split_narrow by (simp add: Class_S_South_def)

lemma normalize_wide: "normalize_class Class_S_South_wide = Class_S_South"
  unfolding normalize_class_words split_wide by (simp add: Class_S_South_def)

text \<open>
  Claim C7. \<open>normalize_class\<close> is idempotent. Its value is the words of the text, each
  a non-empty run without white space and together the text without its white space,
  joined by single ordinary spaces: every run of white space between two words has
  become one space, leading and trailing white space is gone. \<open>Class  S   South\<close> and
  \<open>Class S South\<close> have the same value, \<open>Class S South\<close>.
\<close>

theorem normalize_idempotent_collapses:
  "normalize_class (normalize_class x) = normalize_class x \<and>
   normalize_class x = join_space (py_split x) \<and>
   (\<forall>w \<in> set (py_split x). w \<noteq> [] \<and> (\<forall>c \<in> set w. \<not> isspace c)) \<and>
   concat (py_split x) = filter (\<lambda>c. \<not> isspace c) x \<and>
   normalize_class Class_S_South_wide = normalize_class Class_S_South \<and>
   normalize_class Class_S_South = Class_S_South"
proof (intro conjI)
  show "normalize_class (normalize_class x) = normalize_class x"
    by (rule normalize_class_idem)
  show "normalize_class x = join_space (py_split x)"
    by (rule normalize_class_words)
  show "\<forall>w \<in> set (py_split x). w \<noteq> [] \<and> (\<forall>c \<in> set w. \<not> isspace c)"
    using py_split_words by blast
  show "concat (py_split x) = filter (\<lambda>c. \<not> isspace c) x"
    using py_split_words by blast
  show "normalize_class Class_S_South_wide = normalize_class Class_S_South"
    by (simp only: normalize_narrow normalize_wide)
  show "normalize_class Class_S_South = Class_S_South"
    by (rule normalize_narrow)
qed

theorem normalize_idempotent_collapses_witness:
  "py_split Class_S_South_wide = [[67, 108, 97, 115, 115], [83], [83, 111, 117, 116, 104]] \<and>
   normalize_class Class_S_South_wide = Class_S_South \<and>
   normalize_class (normalize_class Class_S_South_wide) = Class_S_South \<and>
   concat (py_split Class_S_South_wide) = [67, 108, 97, 115, 115, 83, 83, 111, 117, 116, 104]"
proof -
  note th = normalize_idempotent_collapses [of Class_S_South_wide]
  from th have a: "normalize_class Class_S_South_wide = Class_S_South"
    by metis
  from th have b: "normalize_class (normalize_class Class_S_South_wide) =
      normalize_class Class_S_South_wide"
    by metis
  show ?thesis
    using a b by (simp add: split_wide)
qed

section \<open>The two patterns compared\<close>

text \<open>
  After \<open>Class\<close>, white space and the first token, only the longest token can be
  followed by white space, so of the ways the engine reads this prefix only the first
  can go on. The first pattern therefore matches in the ways the three-token form does,
  followed by the ways the two-token form does.
\<close>

lemma concat_map_Nil: "\<forall>x \<in> set xs. f x = [] \<Longrightarrow> concat (map f xs) = []"
  by (induction xs) simp_all

lemma concat_map_Eps: "concat (map (ms Eps) xs) = xs"
  by (induction xs) simp_all

lemma concat_map_Seq:
  "concat (map (ms (Seq b K)) xs) = concat (map (ms K) (concat (map (ms b) xs)))"
  by (induction xs) simp_all

lemma ms_prefix3:
  "ms (Seq a (Seq b (Seq c K))) st = concat (map (ms K) (ms (Seq a (Seq b (Seq c Eps))) st))"
  by (simp only: ms.simps(6) concat_map_Seq concat_map_Eps)

lemma ms_Plus_cases:
  "ms (Plus cls) (s, gs) =
     (if rep_max cls s = 0 then []
      else (drop (rep_max cls s) s, gs) # map (\<lambda>k. (drop k s, gs)) (rev [1..<rep_max cls s]))"
  by (cases "rep_max cls s") simp_all

lemma rep_max_inside: "k < rep_max cls s \<Longrightarrow> k < length s \<and> in_class cls (s ! k)"
  unfolding rep_max_def
  using length_takeWhile_le [of "in_class cls" s] nth_mem [of k "takeWhile (in_class cls) s"]
    takeWhile_nth [of k "in_class cls" s]
  by (metis order_less_le_trans set_takeWhileD)

lemma rep_max_drop_zero:
  assumes "k < rep_max cls s" and "\<And>c. in_class cls c \<Longrightarrow> \<not> in_class cls' c"
  shows "rep_max cls' (drop k s) = 0"
proof -
  from rep_max_inside [OF assms(1)] have k: "k < length s" and c: "in_class cls (s ! k)"
    by simp_all
  from k have "drop k s = s ! k # drop (Suc k) s"
    by (simp add: Cons_nth_drop_Suc)
  with assms(2) [OF c] show ?thesis
    by (simp add: rep_max_def)
qed

lemma in_class_s: "in_class [Cat_s] c = isspace c"
  by (simp add: in_class_def)

lemma in_class_S: "in_class [Cat_S] c = (\<not> isspace c)"
  by (simp add: in_class_def)


lemma ms_Plus_s_dead: "rep_max [Cat_s] (fst st) = 0 \<Longrightarrow> ms (Plus [Cat_s]) st = []"
  by (cases st) simp

lemma ms_Plus_S_tail:
  assumes "st \<in> set (tl (ms (Plus [Cat_S]) (s, gs)))"
  shows "rep_max [Cat_s] (fst st) = 0"
proof (cases "rep_max [Cat_S] s = 0")
  case True
  with assms show ?thesis
    by (simp add: ms_Plus_cases)
next
  case False
  with assms obtain k where k: "k < rep_max [Cat_S] s" and st: "st = (drop k s, gs)"
    by (auto simp: ms_Plus_cases)
  from k have "rep_max [Cat_s] (drop k s) = 0"
    by (rule rep_max_drop_zero) (simp add: in_class_s in_class_S)
  with st show ?thesis by simp
qed

lemma ms_Plus_s_then_S:
  "concat (map (ms (Plus [Cat_S])) (ms (Plus [Cat_s]) (s, gs))) =
     (if rep_max [Cat_s] s = 0 then []
      else ms (Plus [Cat_S]) (drop (rep_max [Cat_s] s) s, gs))"
proof (cases "rep_max [Cat_s] s = 0")
  case True
  then show ?thesis
    by (simp add: ms_Plus_cases)
next
  case False
  have "ms (Plus [Cat_S]) (drop k s, gs) = []" if "k < rep_max [Cat_s] s" for k
  proof -
    from that have "rep_max [Cat_S] (drop k s) = 0"
      by (rule rep_max_drop_zero) (simp add: in_class_s in_class_S)
    then show ?thesis
      by (simp add: ms_Plus_cases)
  qed
  then have "concat (map (ms (Plus [Cat_S]))
      (map (\<lambda>k. (drop k s, gs)) (rev [1..<rep_max [Cat_s] s]))) = []"
    by (intro concat_map_Nil) auto
  with False show ?thesis
    by (simp add: ms_Plus_cases [of "[Cat_s]"])
qed

lemma prefix_eval:
  "ms (Seq (Lit l) (Seq (Plus [Cat_s]) (Seq (Plus [Cat_S]) Eps))) (s, gs) =
     (if take (length l) s = l \<and> rep_max [Cat_s] (drop (length l) s) \<noteq> 0
      then ms (Plus [Cat_S])
             (drop (rep_max [Cat_s] (drop (length l) s)) (drop (length l) s), gs)
      else [])"
proof -
  let ?s1 = "drop (length l) s"
  have e: "ms (Seq (Lit l) (Seq (Plus [Cat_s]) (Seq (Plus [Cat_S]) Eps))) (s, gs) =
      concat (map (ms (Plus [Cat_S])) (concat (map (ms (Plus [Cat_s])) (ms (Lit l) (s, gs)))))"
    by (simp only: ms.simps(6) concat_map_Seq concat_map_Eps)
  show ?thesis
  proof (cases "take (length l) s = l")
    case False
    then have "ms (Lit l) (s, gs) = []"
      by simp
    with False show ?thesis
      unfolding e by simp
  next
    case True
    then have "ms (Lit l) (s, gs) = [(?s1, gs)]"
      by simp
    then have "concat (map (ms (Plus [Cat_S])) (concat (map (ms (Plus [Cat_s])) (ms (Lit l) (s, gs)))))
        = concat (map (ms (Plus [Cat_S])) (ms (Plus [Cat_s]) (?s1, gs)))"
      by (simp del: ms.simps)
    also have "\<dots> = (if rep_max [Cat_s] ?s1 = 0 then []
        else ms (Plus [Cat_S]) (drop (rep_max [Cat_s] ?s1) ?s1, gs))"
      by (rule ms_Plus_s_then_S)
    finally show ?thesis
      unfolding e using True by (simp del: ms.simps)
  qed
qed

lemma prefix_tail_dead:
  assumes "c \<in> set (tl (ms (Seq (Lit l) (Seq (Plus [Cat_s]) (Seq (Plus [Cat_S]) Eps))) st))"
  shows "rep_max [Cat_s] (fst c) = 0"
proof -
  obtain s gs where st: "st = (s, gs)" by (cases st)
  show ?thesis
  proof (cases "take (length l) s = l \<and> rep_max [Cat_s] (drop (length l) s) \<noteq> 0")
    case True
    then have "ms (Seq (Lit l) (Seq (Plus [Cat_s]) (Seq (Plus [Cat_S]) Eps))) st =
        ms (Plus [Cat_S]) (drop (rep_max [Cat_s] (drop (length l) s)) (drop (length l) s), gs)"
      unfolding st prefix_eval by (simp del: ms.simps)
    with assms have "c \<in> set (tl (ms (Plus [Cat_S])
        (drop (rep_max [Cat_s] (drop (length l) s)) (drop (length l) s), gs)))"
      by (simp del: ms.simps)
    then show ?thesis
      by (rule ms_Plus_S_tail)
  next
    case False
    then have "ms (Seq (Lit l) (Seq (Plus [Cat_s]) (Seq (Plus [Cat_S]) Eps))) st = []"
      unfolding st prefix_eval by (auto simp del: ms.simps)
    with assms show ?thesis
      by (simp del: ms.simps)
  qed
qed

lemma bind_opt_split:
  assumes "\<forall>c \<in> set (tl l). B c = [] \<and> K c = []"
  shows "concat (map K (concat (map (\<lambda>c. B c @ [c]) l))) =
         concat (map K (concat (map B l))) @ concat (map K l)"
proof (cases l)
  case Nil
  then show ?thesis by simp
next
  case (Cons c0 rest)
  with assms have r: "\<forall>c \<in> set rest. B c = [] \<and> K c = []"
    by simp
  then have 1: "concat (map (\<lambda>c. B c @ [c]) rest) = rest"
    by (induction rest) simp_all
  from r have 2: "concat (map B rest) = []" "concat (map K rest) = []"
    by (simp_all add: concat_map_Nil)
  show ?thesis
    by (simp add: Cons 1 2)
qed


lemma dead_Seq: "rep_max [Cat_s] (fst c) = 0 \<Longrightarrow> ms (Seq (Plus [Cat_s]) r) c = []"
  by (simp add: ms_Plus_s_dead del: ms.simps(3))

lemma ms_group_then:
  "ms (seqs (Group g # rs)) (s, gs) =
     concat (map (\<lambda>x. ms (seqs rs) (fst x, snd x @ [take (length s - length (fst x)) s]))
       (ms g (s, gs)))"
  by (simp add: map_concat o_def case_prod_unfold del: ms.simps(3,4))

lemma ms_pattern1_split:
  "ms pattern1 (s, gs) = ms pattern2 (s, gs) @ ms two_token_form (s, gs)"
proof -
  define B where "B = Seq (Plus [Cat_s]) (Seq (Plus [Cat_S]) Eps)"
  define P0 where "P0 = Seq (Lit Class_lit) (Seq (Plus [Cat_s]) (Seq (Plus [Cat_S]) Eps))"
  define K where "K = (\<lambda>x :: mstate.
      ms (seqs row_and_seats) (fst x, snd x @ [take (length s - length (fst x)) s]))"
  let ?l = "ms P0 (s, gs)"
  have opt: "ms (Seq (Opt B) Eps) = (\<lambda>c. ms B c @ [c])"
    by (rule ext) (simp only: ms.simps(5,6) concat_map_Eps)
  have g1: "ms (seqs [Lit Class_lit, Plus [Cat_s], Plus [Cat_S],
        Opt (seqs [Plus [Cat_s], Plus [Cat_S]])]) (s, gs) = concat (map (\<lambda>c. ms B c @ [c]) ?l)"
    unfolding seqs.simps B_def P0_def
    by (subst ms_prefix3) (simp only: opt [unfolded B_def])
  have g2: "ms (seqs [Lit Class_lit, Plus [Cat_s], Plus [Cat_S], Plus [Cat_s], Plus [Cat_S]])
        (s, gs) = concat (map (ms B) ?l)"
    unfolding seqs.simps B_def P0_def
    by (rule ms_prefix3)
  have g0: "ms (seqs [Lit Class_lit, Plus [Cat_s], Plus [Cat_S]]) (s, gs) = ?l"
    unfolding seqs.simps P0_def ..
  have p1: "ms pattern1 (s, gs) = concat (map K (concat (map (\<lambda>c. ms B c @ [c]) ?l)))"
    unfolding pattern1_def ms_group_then g1 K_def ..
  have p2: "ms pattern2 (s, gs) = concat (map K (concat (map (ms B) ?l)))"
    unfolding pattern2_def ms_group_then g2 K_def ..
  have p0: "ms two_token_form (s, gs) = concat (map K ?l)"
    unfolding two_token_form_def ms_group_then g0 K_def ..
  have dead: "ms B c = [] \<and> K c = []" if "c \<in> set (tl ?l)" for c
  proof -
    from that have d: "rep_max [Cat_s] (fst c) = 0"
      unfolding P0_def by (rule prefix_tail_dead)
    then have "ms B c = []"
      unfolding B_def by (rule dead_Seq)
    moreover have "K c = []"
      unfolding K_def row_and_seats_def seqs.simps
      by (rule dead_Seq) (simp add: d)
    ultimately show ?thesis ..
  qed
  show ?thesis
    unfolding p1 p2 p0 by (rule bind_opt_split) (use dead in blast)
qed

lemma re_match_pattern1:
  "re_match pattern1 block =
     (case re_match pattern2 block of Some m \<Rightarrow> Some m | None \<Rightarrow> re_match two_token_form block)"
  unfolding re_match_def ms_pattern1_split
  by (cases "ms pattern2 (block, [])") (simp_all split: prod.splits)

lemma fallback_fails:
  "re_match pattern1 block = None \<Longrightarrow> re_match pattern2 block = None"
  unfolding re_match_pattern1 by (simp split: option.splits)

lemma match_block_pattern1: "match_block block = re_match pattern1 block"
  using fallback_fails [of block] by (simp add: match_block_def split: option.splits)

lemma match_block_three_first: "match_block block = three_token_first block"
  unfolding match_block_pattern1 re_match_pattern1 three_token_first_def ..

text \<open>
  Claim C10. The second pattern is never reached with a chance to match: for every block
  on which the first pattern fails the second fails too, so the two attempts together
  give what the first pattern gives alone, and the parser with the fallback branch removed
  returns, on every text and for every digit limit, what \<open>parse_seat_text\<close> returns.
\<close>

theorem fallback_unreachable:
  "(re_match pattern1 block = None \<longrightarrow> re_match pattern2 block = None) \<and>
   match_block block = re_match pattern1 block \<and>
   parse_without_fallback lim text0 = parse_seat_text lim text0"
proof -
  have "match_block = re_match pattern1"
    by (rule ext) (rule match_block_pattern1)
  then have "parse_without_fallback lim text0 = parse_seat_text lim text0"
    by (simp add: parse_without_fallback_def parse_seat_text_def)
  with fallback_fails match_block_pattern1 show ?thesis
    by blast
qed

lemma no_match_abc:
  "re_match pattern1 [97, 98, 99] = None" "re_match pattern2 [97, 98, 99] = None"
  by (simp_all add: regex_eval)

theorem fallback_unreachable_witness:
  "re_match pattern1 [97, 98, 99] = None \<and> re_match pattern2 [97, 98, 99] = None \<and>
   match_block [97, 98, 99] = None \<and>
   parse_without_fallback 4300 [97, 98, 99] = parse_seat_text 4300 [97, 98, 99]"
  using fallback_unreachable [of "[97, 98, 99]" 4300 "[97, 98, 99]"] no_match_abc(1)
  by simp

lemma both_block_matches:
  "re_match two_token_form both_block = Some [Class_A, [49], [50, 32, 51]]"
  "re_match pattern2 both_block = Some [Class_A @ [32, 49, 21015, 50], [51], [52]]"
  "re_match pattern1 both_block = Some [Class_A @ [32, 49, 21015, 50], [51], [52]]"
  by (simp_all add: regex_eval both_block_def Class_A_def)

lemma both_block_blocks:
  "split_blocks both_block = [[], both_block]"
  "replace_char 12288 32 both_block = both_block"
  "strip both_block = both_block" "both_block \<noteq> []"
  by (simp_all add: split_blocks_def at_class_def Class_lit_def both_block_def Class_A_def
      isspace_iff replace_char_def strip_def)

lemma parse_both_block_code:
  "parse_seat_text lim both_block = Inr [(Class_A @ [32, 49, 21015, 50], 3, 4)]"
proof -
  have m: "match_block both_block = Some [Class_A @ [32, 49, 21015, 50], [51], [52]]"
    by (simp add: match_block_def both_block_matches)
  have s: "strip (Class_A @ [32, 49, 21015, 50]) = Class_A @ [32, 49, 21015, 50]"
    "strip [52] = [52]"
    by (simp_all add: strip_def Class_A_def isspace_iff)
  have i: "py_int lim [51] = Inr 3" "py_int lim [52] = Inr 4" "isdigit [52]"
    by (simp_all add: int_eval)
  have sp: "re_split seat_sep [52] = [[52]]"
    by (simp add: re_split_def seat_sep_def in_class_def isspace_iff)
  have p: "parse_block_with match_block lim both_block [] =
      Inr [(Class_A @ [32, 49, 21015, 50], 3, 4)]"
    by (simp add: parse_block_with_def both_block_blocks m s group_def i sp)
  show ?thesis
    by (simp add: parse_seat_text_def parse_text_with_def both_block_blocks p parse_block_empty)
qed

lemma parse_both_block_spec:
  "parse_text_with two_token_first lim both_block = Inr [(Class_A, 1, 2), (Class_A, 1, 3)]"
proof -
  have m: "two_token_first both_block = Some [Class_A, [49], [50, 32, 51]]"
    by (simp add: two_token_first_def both_block_matches)
  have s: "strip Class_A = Class_A" "strip [50, 32, 51] = [50, 32, 51]" "strip [50] = [50]"
    "strip [51] = [51]"
    by (simp_all add: strip_def Class_A_def isspace_iff)
  have i: "py_int lim [49] = Inr 1" "py_int lim [50] = Inr 2" "py_int lim [51] = Inr 3"
    "isdigit [50]" "isdigit [51]"
    by (simp_all add: int_eval)
  have sp: "re_split seat_sep [50, 32, 51] = [[50], [51]]"
    by (simp add: re_split_def seat_sep_def in_class_def isspace_iff)
  have p: "parse_block_with two_token_first lim both_block [] =
      Inr [(Class_A, 1, 2), (Class_A, 1, 3)]"
    by (simp add: parse_block_with_def both_block_blocks m s group_def i sp)
  show ?thesis
    by (simp add: parse_text_with_def both_block_blocks p parse_block_empty)
qed

text \<open>
  Claim C2, as stated, fails. The block \<open>Class A\<close>, 1, row glyph, 2, space, 3, row glyph, 4
  fits the two-token form (class \<open>Class A\<close>, row 1, seats 2 and 3) and the three-token
  form (a class name of three tokens, row 3, seat 4). The code takes the three-token
  reading; trying the two-token form first would give the other one.
\<close>

theorem two_token_reading_loses:
  "re_match two_token_form both_block = Some [Class_A, [49], [50, 32, 51]] \<and>
   re_match pattern2 both_block = Some [Class_A @ [32, 49, 21015, 50], [51], [52]] \<and>
   match_block both_block = Some [Class_A @ [32, 49, 21015, 50], [51], [52]] \<and>
   match_block both_block \<noteq> two_token_first both_block \<and>
   parse_seat_text 4300 both_block = Inr [(Class_A @ [32, 49, 21015, 50], 3, 4)] \<and>
   parse_text_with two_token_first 4300 both_block = Inr [(Class_A, 1, 2), (Class_A, 1, 3)]"
  by (simp add: match_block_def two_token_first_def both_block_matches Class_A_def
      parse_both_block_code [unfolded Class_A_def] parse_both_block_spec [unfolded Class_A_def])

text \<open>
  Claim C2, amended. The pattern tried first allows a third token in the class name and
  takes it greedily: on every block the match is that of the three-token form when the
  three-token form matches, and that of the two-token form otherwise. So the three-token
  reading wins whenever both are grammatical, and \<open>parse_seat_text\<close> is the parser that
  tries the three-token form first and the two-token form when it fails.
\<close>

theorem three_token_reading_wins:
  "match_block block = three_token_first block \<and>
   (re_match pattern2 block' = Some m \<longrightarrow> match_block block' = Some m) \<and>
   (re_match pattern2 block'' = None \<longrightarrow>
      match_block block'' = re_match two_token_form block'') \<and>
   parse_seat_text lim text0 = parse_text_with three_token_first lim text0"
proof -
  have "match_block = three_token_first"
    by (rule ext) (rule match_block_three_first)
  then have "parse_seat_text lim text0 = parse_text_with three_token_first lim text0"
    by (simp add: parse_seat_text_def)
  then show ?thesis
    by (simp add: match_block_three_first three_token_first_def)
qed

lemma short_block_matches:
  "re_match pattern2 (Class_A @ [32, 49, 21015, 50]) = None"
  "re_match two_token_form (Class_A @ [32, 49, 21015, 50]) = Some [Class_A, [49], [50]]"
  by (simp_all add: regex_eval Class_A_def)

theorem three_token_reading_wins_witness:
  "re_match pattern2 both_block = Some [Class_A @ [32, 49, 21015, 50], [51], [52]] \<and>
   match_block both_block = Some [Class_A @ [32, 49, 21015, 50], [51], [52]] \<and>
   re_match pattern2 (Class_A @ [32, 49, 21015, 50]) = None \<and>
   match_block (Class_A @ [32, 49, 21015, 50]) = Some [Class_A, [49], [50]]"
proof -
  note th = three_token_reading_wins [of both_block both_block
      "[Class_A @ [32, 49, 21015, 50], [51], [52]]" "Class_A @ [32, 49, 21015, 50]" 4300 "[]"]
  from th both_block_matches(2)
  have a: "match_block both_block = Some [Class_A @ [32, 49, 21015, 50], [51], [52]]"
    by blast
  from th short_block_matches(1)
  have "match_block (Class_A @ [32, 49, 21015, 50]) =
      re_match two_token_form (Class_A @ [32, 49, 21015, 50])"
    by blast
  then have b: "match_block (Class_A @ [32, 49, 21015, 50]) = Some [Class_A, [49], [50]]"
    by (simp only: short_block_matches(2))
  from a b both_block_matches(2) short_block_matches(1) show ?thesis
    by blast
qed

end
